theory Spec2Isabelle
  imports Main "HOL-Library.Word" "HOL-Library.Multiset"
begin

unbundle bit_operations_syntax

section \<open>Reconciliation plus eviction (src/btree/rec\_evict.c)\<close>

text \<open>
  A shallow embedding of the eviction controller of \<^verbatim>\<open>rec_evict.c\<close>.

  The in-memory B-tree is a tree of pages.  A page owns the array of \<^verbatim>\<open>WT_REF\<close> slots
  of its children (\<^verbatim>\<open>WT_REF_FOREACH\<close> walks it in slot order), and a slot whose child is
  in memory points to that child.  The embedding stores the child inside its slot, so
  the back-link \<^verbatim>\<open>child->ref\<close> of a page reached through a slot is that slot.  The slot
  of the eviction candidate itself (\<^verbatim>\<open>page->ref\<close>, owned by a page that is not part of
  the walk) is kept as a separate record next to the candidate page.

  Every C function returns an \<^verbatim>\<open>int\<close> and updates the objects it was given pointers to;
  its model returns \<open>Return ret x\<close> with the updated objects \<open>x\<close>.  \<open>Fault\<close> is a NULL
  dereference or a failed \<^verbatim>\<open>WT_ASSERT\<close>; \<open>Spin\<close> says that the fuel given to a loop
  without a bound of its own was used up.

  Statistics counters are kept; \<^verbatim>\<open>WT_VERBOSE\<close> messages are not modelled.
\<close>

subsection \<open>Data model\<close>

type_synonym ptr = nat  \<comment> \<open>a machine address; \<open>0\<close> is \<^verbatim>\<open>NULL\<close>\<close>

datatype ref_state = WT_REF_DISK | WT_REF_LOCKED | WT_REF_MEM | WT_REF_READING

text \<open>Modelled from the spec: the page types of \<^verbatim>\<open>wt_internal.h\<close>, which is not in src.\<close>

datatype page_type = WT_PAGE_COL_INT | WT_PAGE_COL_LEAF | WT_PAGE_ROW_INT | WT_PAGE_ROW_LEAF

text \<open>\<^verbatim>\<open>WT_ADDR\<close>: an address cookie and its size.\<close>

datatype wt_addr = WT_ADDR (a_addr: ptr) (a_size: "32 word")

text \<open>
  \<^verbatim>\<open>WT_REF.addr\<close> is a \<^verbatim>\<open>void *\<close>: \<^verbatim>\<open>NULL\<close>, a pointer into the disk image of the
  parent page, or a pointer to a separately allocated \<^verbatim>\<open>WT_ADDR\<close>.
\<close>

datatype ref_addr = ADDR_NULL | ADDR_ON_PAGE ptr | ADDR_OFF_PAGE wt_addr

datatype page =
  Page (p_addr: ptr) (p_parent: ptr) (p_type: page_type) (p_flags: "32 word")
       (p_read_gen: "64 word") (p_modify: "modify option") (p_entries: "ref list")
and ref =
  Ref (r_state: ref_state) (r_page: "page option") (r_addr: ref_addr)
and modify =
  Modify (m_dirty: bool) (m_replace: wt_addr) (m_split: "page option")

text \<open>The slot \<^verbatim>\<open>page->ref\<close> of the eviction candidate.\<close>

record wt_ref =
  state :: ref_state
  page :: ptr
  addr :: ref_addr

text \<open>Calls of the external collaborators, in the order in which they are made.\<close>

datatype event =
    EV_rec_write ptr
  | EV_track_wrapup ptr
  | EV_page_out ptr
  | EV_free ref_addr
  | EV_calloc
  | EV_bm_free ptr "32 word"
  | EV_free_ptr ptr
  | EV_page_modify_init ptr
  | EV_publish ref_state ptr ref_addr

text \<open>
  The session with its connection, cache and btree handle: the hazard array of the
  connection, the evictor's private copy, the root fields of the btree, the statistics
  and the log of external calls.
\<close>

record session =
  conn_hazard :: "ptr list"
  cache_hazard :: "ptr list"
  hazard_elem :: nat
  root_page :: ptr
  root_addr :: wt_addr
  root_update :: bool
  cache_evict_internal :: nat
  cache_evict_unmodified :: nat
  cache_evict_modified :: nat
  cache_evict_hazard :: nat
  rec_hazard :: nat
  trace :: "event list"

text \<open>
  The collaborators that are not in src, as parameters.  Each gives the \<^verbatim>\<open>int\<close> it
  returns; the reconciliation writer also gives the \<^verbatim>\<open>rec_flags\<close> and the
  \<^verbatim>\<open>modify\<close> structure it leaves on the page, and \<^verbatim>\<open>__wt_cache_read_gen\<close> gives the
  value of the cache's read-generation clock.
\<close>

record env =
  wt_rec_write :: "page \<Rightarrow> int \<times> 32 word \<times> modify option"
  wt_rec_track_wrapup :: "page \<Rightarrow> int"
  wt_calloc :: int
  wt_bm_free :: "ptr \<Rightarrow> 32 word \<Rightarrow> int"
  wt_page_modify_init :: "page \<Rightarrow> int"
  wt_cache_read_gen :: "64 word"

datatype 'a exec = Return int 'a | Fault | Spin

subsection \<open>Constants and macros\<close>

text \<open>
  Modelled from the spec: the flag bits and \<^verbatim>\<open>WT_ERROR\<close> are defined in headers that
  are not in src.  The four reconciliation flags are distinct single bits and
  \<^verbatim>\<open>WT_PAGE_REC_MASK\<close> is their union; \<^verbatim>\<open>WT_ERROR\<close> is the generic error of the engine.
\<close>

definition WT_PAGE_REC_EMPTY :: "32 word" where "WT_PAGE_REC_EMPTY = 0x01"
definition WT_PAGE_REC_REPLACE :: "32 word" where "WT_PAGE_REC_REPLACE = 0x02"
definition WT_PAGE_REC_SPLIT :: "32 word" where "WT_PAGE_REC_SPLIT = 0x04"
definition WT_PAGE_REC_SPLIT_MERGE :: "32 word" where "WT_PAGE_REC_SPLIT_MERGE = 0x08"

definition WT_PAGE_REC_MASK :: "32 word" where
  "WT_PAGE_REC_MASK =
     WT_PAGE_REC_EMPTY OR WT_PAGE_REC_REPLACE OR WT_PAGE_REC_SPLIT OR WT_PAGE_REC_SPLIT_MERGE"

definition WT_REC_SINGLE :: "32 word" where "WT_REC_SINGLE = 0x01"
definition WT_REC_WAIT :: "32 word" where "WT_REC_WAIT = 0x02"

definition WT_ERROR :: int where "WT_ERROR = - 31802"

text \<open>\<^verbatim>\<open>F_ISSET(p, mask)\<close> is \<^verbatim>\<open>((p)->flags & (mask))\<close>; \<^verbatim>\<open>LF_ISSET\<close> is the same on the local \<^verbatim>\<open>flags\<close>.\<close>

definition F_ISSET :: "page \<Rightarrow> 32 word \<Rightarrow> 32 word" where
  "F_ISSET p msk = p_flags p AND msk"

definition LF_ISSET :: "32 word \<Rightarrow> 32 word \<Rightarrow> 32 word" where
  "LF_ISSET flags msk = flags AND msk"

definition F_CLR :: "page \<Rightarrow> 32 word \<Rightarrow> page" where
  "F_CLR p msk =
     Page (p_addr p) (p_parent p) (p_type p) (p_flags p AND NOT msk)
          (p_read_gen p) (p_modify p) (p_entries p)"

definition WT_PAGE_IS_ROOT :: "page \<Rightarrow> bool" where
  "WT_PAGE_IS_ROOT p = (p_parent p = 0)"

text \<open>The two cases of \<^verbatim>\<open>switch (page->type)\<close> that select the internal pages.\<close>

definition is_internal :: "page_type \<Rightarrow> bool" where
  "is_internal t = (case t of WT_PAGE_COL_INT \<Rightarrow> True | WT_PAGE_ROW_INT \<Rightarrow> True | _ \<Rightarrow> False)"

text \<open>
  Modelled from the spec: \<^verbatim>\<open>__wt_page_is_modified\<close> is an inline function of a header
  that is not in src.  A page is dirty when it has a \<^verbatim>\<open>modify\<close> structure that records
  changes not yet written.
\<close>

definition wt_page_is_modified :: "page \<Rightarrow> bool" where
  "wt_page_is_modified p = (case p_modify p of None \<Rightarrow> False | Some m \<Rightarrow> m_dirty m)"

text \<open>
  Modelled from the spec: \<^verbatim>\<open>__wt_off_page\<close> tells whether an address lies outside the
  disk image of the parent page, that is, whether it was allocated on its own.
\<close>

definition wt_off_page :: "ref_addr \<Rightarrow> bool" where
  "wt_off_page a = (case a of ADDR_OFF_PAGE _ \<Rightarrow> True | _ \<Rightarrow> False)"

text \<open>Modelled from the spec: \<^verbatim>\<open>WT_ILLEGAL_VALUE\<close> returns the error of \<^verbatim>\<open>__wt_illegal_value\<close>.\<close>

definition wt_illegal_value :: int where
  "wt_illegal_value = WT_ERROR"

definition log_event :: "event \<Rightarrow> session \<Rightarrow> session" where
  "log_event e s = s\<lparr>trace := trace s @ [e]\<rparr>"

subsection \<open>Hazard references\<close>

text \<open>\<^verbatim>\<open>__hazard_qsort_cmp\<close> and \<^verbatim>\<open>__hazard_bsearch_cmp\<close>: compare two page addresses.\<close>

definition hazard_qsort_cmp :: "ptr \<Rightarrow> ptr \<Rightarrow> int" where
  "hazard_qsort_cmp a_page b_page = (if a_page > b_page then 1 else (if a_page < b_page then - 1 else 0))"

definition hazard_bsearch_cmp :: "ptr \<Rightarrow> ptr \<Rightarrow> int" where
  "hazard_bsearch_cmp search entry = (if search > entry then 1 else (if search < entry then - 1 else 0))"

text \<open>
  The C library's \<^verbatim>\<open>qsort\<close>, as an insertion sort that orders by the comparison function,
  and its \<^verbatim>\<open>bsearch\<close>, as a binary search over the first \<open>nmemb\<close> elements that returns
  the index of a matching element.  The library leaves a search beyond the end of the
  array undefined; the model answers \<open>None\<close> there, and \<^verbatim>\<open>__hazard_copy\<close> never asks for it.
\<close>

fun qsort_insert :: "('a \<Rightarrow> 'a \<Rightarrow> int) \<Rightarrow> 'a \<Rightarrow> 'a list \<Rightarrow> 'a list" where
  "qsort_insert cmp x [] = [x]"
| "qsort_insert cmp x (y # ys) = (if cmp x y \<le> 0 then x # y # ys else y # qsort_insert cmp x ys)"

fun qsort :: "('a \<Rightarrow> 'a \<Rightarrow> int) \<Rightarrow> 'a list \<Rightarrow> 'a list" where
  "qsort cmp [] = []"
| "qsort cmp (x # xs) = qsort_insert cmp x (qsort cmp xs)"

function bsearch_range :: "('k \<Rightarrow> 'a \<Rightarrow> int) \<Rightarrow> 'k \<Rightarrow> 'a list \<Rightarrow> nat \<Rightarrow> nat \<Rightarrow> nat option" where
  "bsearch_range cmp key xs lo hi =
     (if hi \<le> lo \<or> length xs < hi then None
      else let mid = (lo + hi) div 2; c = cmp key (xs ! mid) in
        if c = 0 then Some mid
        else if c < 0 then bsearch_range cmp key xs lo mid
        else bsearch_range cmp key xs (mid + 1) hi)"
  by pat_completeness auto
termination
  by (relation "measure (\<lambda>(cmp, key, xs, lo, hi). hi - lo)") auto

definition bsearch :: "('k \<Rightarrow> 'a \<Rightarrow> int) \<Rightarrow> 'k \<Rightarrow> 'a list \<Rightarrow> nat \<Rightarrow> nat option" where
  "bsearch cmp key base nmemb = bsearch_range cmp key base 0 nmemb"

text \<open>The loop of \<^verbatim>\<open>__hazard_copy\<close>: copy the slots that are not \<^verbatim>\<open>NULL\<close>, in order.\<close>

fun hazard_compact :: "ptr list \<Rightarrow> ptr list" where
  "hazard_compact [] = []"
| "hazard_compact (h # hs) = (if h = 0 then hazard_compact hs else h # hazard_compact hs)"

text \<open>
  \<^verbatim>\<open>__hazard_copy\<close>.  Only the first \<^verbatim>\<open>hazard_elem\<close> slots of the cache's copy are ever
  read, and only they are kept.
\<close>

definition hazard_copy :: "session \<Rightarrow> session" where
  "hazard_copy s =
     (let compacted = hazard_compact (conn_hazard s);
          elem = length compacted
      in s\<lparr>cache_hazard := qsort hazard_qsort_cmp compacted, hazard_elem := elem\<rparr>)"

text \<open>
  \<^verbatim>\<open>__hazard_exclusive\<close>, from the label \<^verbatim>\<open>retry\<close> on.  The hazard array is written by
  other threads, which are not modelled: with \<^verbatim>\<open>force\<close> the loop ends only when the
  array it reads no longer holds the page, and \<^verbatim>\<open>__wt_yield\<close> changes nothing that the
  model keeps.  The argument \<open>st\<close> is \<^verbatim>\<open>ref->state\<close> and \<open>pg\<close> is \<^verbatim>\<open>ref->page\<close>; the
  result carries the new \<^verbatim>\<open>ref->state\<close>.
\<close>

fun hazard_retry :: "nat \<Rightarrow> session \<Rightarrow> ref_state \<Rightarrow> ptr \<Rightarrow> bool \<Rightarrow> (session \<times> ref_state) exec" where
  "hazard_retry 0 s st pg force = Spin"
| "hazard_retry (Suc fuel) s st pg force =
     (let s1 = hazard_copy s in
      if bsearch hazard_bsearch_cmp pg (cache_hazard s1) (hazard_elem s1) = None
      then Return 0 (s1, st)
      else let s2 = s1\<lparr>rec_hazard := rec_hazard s1 + 1\<rparr> in
        if force then hazard_retry fuel s2 st pg force
        else Return 1 (s2\<lparr>cache_evict_hazard := cache_evict_hazard s2 + 1\<rparr>, WT_REF_MEM))"

text \<open>
  \<^verbatim>\<open>__hazard_exclusive\<close>.  Modelled from the spec: \<^verbatim>\<open>WT_ASSERT\<close> is a macro of a header
  that is not in src; the precondition it checks is that the slot is \<open>MEM\<close> or
  \<open>LOCKED\<close>, and a call that breaks it is a \<open>Fault\<close>.
\<close>

definition hazard_exclusive :: "nat \<Rightarrow> session \<Rightarrow> ref_state \<Rightarrow> ptr \<Rightarrow> bool \<Rightarrow> (session \<times> ref_state) exec" where
  "hazard_exclusive fuel s st pg force =
     (if \<not> (st = WT_REF_MEM \<or> st = WT_REF_LOCKED) then Fault
      else hazard_retry fuel s WT_REF_LOCKED pg force)"

subsection \<open>The subtree walk\<close>

text \<open>
  \<^verbatim>\<open>__rec_excl_page\<close>.  The arguments \<open>st\<close> and \<open>pg\<close> are the \<^verbatim>\<open>state\<close> and \<^verbatim>\<open>page\<close>
  fields of \<^verbatim>\<open>ref\<close>; \<open>p\<close> is the page \<^verbatim>\<open>page\<close>.
\<close>

definition rec_excl_page ::
  "nat \<Rightarrow> session \<Rightarrow> ref_state \<Rightarrow> ptr \<Rightarrow> page \<Rightarrow> 32 word \<Rightarrow> (session \<times> ref_state) exec" where
  "rec_excl_page fuel s st pg p flags =
     (if F_ISSET p (WT_PAGE_REC_EMPTY OR WT_PAGE_REC_SPLIT OR WT_PAGE_REC_SPLIT_MERGE) = 0
      then Return 1 (s, st)
      else
        (case (if LF_ISSET flags WT_REC_SINGLE = 0
               then hazard_exclusive fuel s st pg (LF_ISSET flags WT_REC_WAIT \<noteq> 0)
               else Return 0 (s, st)) of
           Fault \<Rightarrow> Fault
         | Spin \<Rightarrow> Spin
         | Return ret (s1, st1) \<Rightarrow>
             if ret \<noteq> 0 then Return ret (s1, st1)
             else if F_ISSET p WT_PAGE_REC_SPLIT_MERGE \<noteq> 0 then Return 0 (s1, st1)
             else if F_ISSET p (WT_PAGE_REC_SPLIT OR WT_PAGE_REC_EMPTY) \<noteq> 0
                     \<and> \<not> wt_page_is_modified p then Return 0 (s1, st1)
             else Return 1 (s1, st1)))"

text \<open>
  \<^verbatim>\<open>__rec_excl\<close>.  \<open>rec_excl\<close> is the call on a parent page; \<open>rec_excl_refs\<close> is the rest of
  its \<^verbatim>\<open>WT_REF_FOREACH\<close> loop, on the slots not yet visited.  The result carries the
  slots as the walk left them and the value of \<^verbatim>\<open>*last_pagep\<close>.
\<close>

fun rec_excl :: "nat \<Rightarrow> session \<Rightarrow> page \<Rightarrow> ptr \<Rightarrow> 32 word \<Rightarrow> (session \<times> page \<times> ptr) exec"
and rec_excl_refs :: "nat \<Rightarrow> session \<Rightarrow> ref list \<Rightarrow> ptr \<Rightarrow> 32 word \<Rightarrow> (session \<times> ref list \<times> ptr) exec"
where
  "rec_excl fuel s (Page a par t f g m es) last_page flags =
     (case rec_excl_refs fuel s es last_page flags of
        Fault \<Rightarrow> Fault
      | Spin \<Rightarrow> Spin
      | Return ret (s1, es1, last1) \<Rightarrow> Return ret (s1, Page a par t f g m es1, last1))"
| "rec_excl_refs fuel s [] last_page flags = Return 0 (s, [], last_page)"
| "rec_excl_refs fuel s (Ref WT_REF_DISK pg ad # rs) last_page flags =
     (case rec_excl_refs fuel s rs last_page flags of
        Fault \<Rightarrow> Fault
      | Spin \<Rightarrow> Spin
      | Return ret (s1, rs1, last1) \<Rightarrow> Return ret (s1, Ref WT_REF_DISK pg ad # rs1, last1))"
| "rec_excl_refs fuel s (Ref WT_REF_LOCKED pg ad # rs) last_page flags =
     Return WT_ERROR (s, Ref WT_REF_LOCKED pg ad # rs, last_page)"
| "rec_excl_refs fuel s (Ref WT_REF_READING pg ad # rs) last_page flags =
     Return WT_ERROR (s, Ref WT_REF_READING pg ad # rs, last_page)"
| "rec_excl_refs fuel s (Ref WT_REF_MEM None ad # rs) last_page flags = Fault"
| "rec_excl_refs fuel s (Ref WT_REF_MEM (Some p) ad # rs) last_page flags =
     (case rec_excl_page fuel s WT_REF_MEM (p_addr p) p flags of
        Fault \<Rightarrow> Fault
      | Spin \<Rightarrow> Spin
      | Return ret (s1, st1) \<Rightarrow>
          if ret \<noteq> 0 then Return ret (s1, Ref st1 (Some p) ad # rs, last_page)
          else
            (case (if is_internal (p_type p) then rec_excl fuel s1 p (p_addr p) flags
                   else Return 0 (s1, p, p_addr p)) of
               Fault \<Rightarrow> Fault
             | Spin \<Rightarrow> Spin
             | Return ret2 (s2, p2, last2) \<Rightarrow>
                 if ret2 \<noteq> 0 then Return ret2 (s2, Ref st1 (Some p2) ad # rs, last2)
                 else
                   (case rec_excl_refs fuel s2 rs last2 flags of
                      Fault \<Rightarrow> Fault
                    | Spin \<Rightarrow> Spin
                    | Return ret3 (s3, rs3, last3) \<Rightarrow>
                        Return ret3 (s3, Ref st1 (Some p2) ad # rs3, last3))))"

text \<open>
  \<^verbatim>\<open>__rec_excl_clear\<close>, after its first statement.  The store
  \<^verbatim>\<open>page->ref->state = WT_REF_MEM\<close> goes to the slot that designates the page: the
  caller's slot for a child (\<open>excl_clear_refs\<close>), the candidate's slot in
  \<open>rec_excl_clear\<close> below.
\<close>

fun excl_clear_page :: "page \<Rightarrow> ptr \<Rightarrow> page exec"
and excl_clear_refs :: "ref list \<Rightarrow> ptr \<Rightarrow> (ref list) exec"
where
  "excl_clear_page (Page a par t f g m es) last_page =
     (if a = last_page then Return 1 (Page a par t f g m es)
      else if is_internal t then
        (case excl_clear_refs es last_page of
           Fault \<Rightarrow> Fault
         | Spin \<Rightarrow> Spin
         | Return ret es1 \<Rightarrow> Return ret (Page a par t f g m es1))
      else Return 0 (Page a par t f g m es))"
| "excl_clear_refs [] last_page = Return 0 []"
| "excl_clear_refs (Ref WT_REF_DISK pg ad # rs) last_page =
     (case excl_clear_refs rs last_page of
        Fault \<Rightarrow> Fault
      | Spin \<Rightarrow> Spin
      | Return ret rs1 \<Rightarrow> Return ret (Ref WT_REF_DISK pg ad # rs1))"
| "excl_clear_refs (Ref WT_REF_LOCKED None ad # rs) last_page = Fault"
| "excl_clear_refs (Ref WT_REF_LOCKED (Some p) ad # rs) last_page =
     (case excl_clear_page p last_page of
        Fault \<Rightarrow> Fault
      | Spin \<Rightarrow> Spin
      | Return ret p1 \<Rightarrow>
          if ret \<noteq> 0 then Return 1 (Ref WT_REF_MEM (Some p1) ad # rs)
          else
            (case excl_clear_refs rs last_page of
               Fault \<Rightarrow> Fault
             | Spin \<Rightarrow> Spin
             | Return ret2 rs1 \<Rightarrow> Return ret2 (Ref WT_REF_MEM (Some p1) ad # rs1)))"
| "excl_clear_refs (Ref WT_REF_MEM pg ad # rs) last_page =
     Return wt_illegal_value (Ref WT_REF_MEM pg ad # rs)"
| "excl_clear_refs (Ref WT_REF_READING pg ad # rs) last_page =
     Return wt_illegal_value (Ref WT_REF_READING pg ad # rs)"

definition rec_excl_clear :: "wt_ref \<Rightarrow> page \<Rightarrow> ptr \<Rightarrow> (wt_ref \<times> page) exec" where
  "rec_excl_clear r p last_page =
     (case excl_clear_page p last_page of
        Fault \<Rightarrow> Fault
      | Spin \<Rightarrow> Spin
      | Return ret p1 \<Rightarrow> Return ret (r\<lparr>state := WT_REF_MEM\<rparr>, p1))"

subsection \<open>Discarding pages\<close>

text \<open>\<^verbatim>\<open>__rec_discard_page\<close>.\<close>

definition rec_discard_page :: "env \<Rightarrow> session \<Rightarrow> page \<Rightarrow> session exec" where
  "rec_discard_page env s p =
     (if p_modify p \<noteq> None then
        (let s1 = log_event (EV_track_wrapup (p_addr p)) s in
         if wt_rec_track_wrapup env p \<noteq> 0 then Return (wt_rec_track_wrapup env p) s1
         else Return 0 (log_event (EV_page_out (p_addr p)) s1))
      else Return 0 (log_event (EV_page_out (p_addr p)) s))"

text \<open>\<^verbatim>\<open>__rec_discard\<close>; \<open>rec_discard_refs\<close> is the rest of its loop over the slots.\<close>

fun rec_discard :: "env \<Rightarrow> session \<Rightarrow> page \<Rightarrow> session exec"
and rec_discard_refs :: "env \<Rightarrow> session \<Rightarrow> ref list \<Rightarrow> session exec"
where
  "rec_discard env s (Page a par t f g m es) =
     (if is_internal t then
        (case rec_discard_refs env s es of
           Fault \<Rightarrow> Fault
         | Spin \<Rightarrow> Spin
         | Return ret s1 \<Rightarrow>
             if ret \<noteq> 0 then Return ret s1
             else rec_discard_page env s1 (Page a par t f g m es))
      else rec_discard_page env s (Page a par t f g m es))"
| "rec_discard_refs env s [] = Return 0 s"
| "rec_discard_refs env s (Ref st pg ad # rs) =
     (if st \<noteq> WT_REF_DISK then
        (case pg of
           None \<Rightarrow> Fault
         | Some p \<Rightarrow>
             (case rec_discard env s p of
                Fault \<Rightarrow> Fault
              | Spin \<Rightarrow> Spin
              | Return ret s1 \<Rightarrow>
                  if ret \<noteq> 0 then Return ret s1 else rec_discard_refs env s1 rs))
      else rec_discard_refs env s rs)"

subsection \<open>Updating the parent\<close>

text \<open>\<^verbatim>\<open>__rec_page_clean_update\<close>.\<close>

definition rec_page_clean_update :: "env \<Rightarrow> session \<Rightarrow> wt_ref \<Rightarrow> page \<Rightarrow> (session \<times> wt_ref) exec" where
  "rec_page_clean_update env s r p =
     (let r1 = r\<lparr>page := 0\<rparr>;
          r2 = r1\<lparr>state := WT_REF_DISK\<rparr>
      in case rec_discard_page env s p of
           Fault \<Rightarrow> Fault
         | Spin \<Rightarrow> Spin
         | Return ret s1 \<Rightarrow> Return ret (s1, r2))"

text \<open>\<^verbatim>\<open>__rec_root_clean_update\<close>.\<close>

definition rec_root_clean_update :: "env \<Rightarrow> session \<Rightarrow> page \<Rightarrow> session exec" where
  "rec_root_clean_update env s p = rec_discard_page env (s\<lparr>root_page := 0\<rparr>) p"

text \<open>The address of the page a \<^verbatim>\<open>WT_PAGE *\<close> points to.\<close>

definition page_ptr :: "page option \<Rightarrow> ptr" where
  "page_ptr q = (case q of None \<Rightarrow> 0 | Some p \<Rightarrow> p_addr p)"

text \<open>
  \<^verbatim>\<open>__rec_page_dirty_update\<close>.  \<^verbatim>\<open>__wt_free\<close> releases the memory and clears the pointer
  it was given; \<^verbatim>\<open>WT_PUBLISH\<close> is a write barrier followed by the store, logged with
  the fields of the slot that the store makes visible.
\<close>

definition rec_page_dirty_update ::
  "env \<Rightarrow> session \<Rightarrow> wt_ref \<Rightarrow> page \<Rightarrow> 32 word \<Rightarrow> (session \<times> wt_ref \<times> page) exec" where
  "rec_page_dirty_update env s parent_ref p flags =
     (if F_ISSET p WT_PAGE_REC_MASK = WT_PAGE_REC_EMPTY then
        (if LF_ISSET flags WT_REC_SINGLE = 0 then
           (case rec_excl_clear parent_ref p 0 of
              Fault \<Rightarrow> Fault
            | Spin \<Rightarrow> Spin
            | Return ret (r1, p1) \<Rightarrow> Return 0 (s, r1, p1))
         else Return 0 (s, parent_ref, p))
      else if F_ISSET p WT_PAGE_REC_MASK = WT_PAGE_REC_REPLACE then
        (let (s1, r1) =
               (if addr parent_ref \<noteq> ADDR_NULL \<and> wt_off_page (addr parent_ref)
                then (log_event (EV_free (addr parent_ref)) s, parent_ref\<lparr>addr := ADDR_NULL\<rparr>)
                else (s, parent_ref));
             s2 = log_event EV_calloc s1
         in if wt_calloc env \<noteq> 0 then Return (wt_calloc env) (s2, r1, p)
            else
              (case p_modify p of
                 None \<Rightarrow> Fault
               | Some md \<Rightarrow>
                   (let r2 = r1\<lparr>addr := ADDR_OFF_PAGE
                                  (WT_ADDR (a_addr (m_replace md)) (a_size (m_replace md)))\<rparr>;
                        r3 = r2\<lparr>page := 0\<rparr>;
                        r4 = r3\<lparr>state := WT_REF_DISK\<rparr>;
                        s3 = log_event (EV_publish WT_REF_DISK (page r3) (addr r3)) s2
                    in case rec_discard env s3 p of
                         Fault \<Rightarrow> Fault
                       | Spin \<Rightarrow> Spin
                       | Return ret s4 \<Rightarrow> Return ret (s4, r4, p))))
      else if F_ISSET p WT_PAGE_REC_MASK = WT_PAGE_REC_SPLIT then
        (case p_modify p of
           None \<Rightarrow> Fault
         | Some md \<Rightarrow>
             (let r1 = parent_ref\<lparr>page := page_ptr (m_split md)\<rparr>;
                  r2 = r1\<lparr>state := WT_REF_MEM\<rparr>;
                  s1 = log_event (EV_publish WT_REF_MEM (page r1) (addr r1)) s
              in case rec_discard env s1 p of
                   Fault \<Rightarrow> Fault
                 | Spin \<Rightarrow> Spin
                 | Return ret s2 \<Rightarrow> Return ret (s2, r2, p)))
      else Return wt_illegal_value (s, parent_ref, p))"

text \<open>\<^verbatim>\<open>__rec_root_addr_update\<close>.\<close>

definition rec_root_addr_update :: "env \<Rightarrow> session \<Rightarrow> ptr \<Rightarrow> 32 word \<Rightarrow> session exec" where
  "rec_root_addr_update env s a sz =
     (if a_addr (root_addr s) \<noteq> 0 then
        (let s1 = log_event (EV_bm_free (a_addr (root_addr s)) (a_size (root_addr s))) s in
         if wt_bm_free env (a_addr (root_addr s)) (a_size (root_addr s)) \<noteq> 0
         then Return (wt_bm_free env (a_addr (root_addr s)) (a_size (root_addr s))) s1
         else
           (let s2 = log_event (EV_free_ptr (a_addr (root_addr s))) s1;
                s3 = s2\<lparr>root_addr := WT_ADDR 0 (a_size (root_addr s))\<rparr>
            in Return 0 (s3\<lparr>root_update := True, root_addr := WT_ADDR a sz\<rparr>)))
      else Return 0 (s\<lparr>root_update := True, root_addr := WT_ADDR a sz\<rparr>))"

text \<open>
  Modelled from the spec: \<^verbatim>\<open>__wt_rec_write\<close> is not in src.  The writer reconciles a
  page and leaves its \<^verbatim>\<open>rec_flags\<close> and \<^verbatim>\<open>modify\<close> populated; \<open>reconciled p f md\<close> is
  the page \<open>p\<close> with the flags \<open>f\<close> and the \<^verbatim>\<open>modify\<close> structure \<open>md\<close>.
\<close>

definition reconciled :: "page \<Rightarrow> 32 word \<Rightarrow> modify option \<Rightarrow> page" where
  "reconciled p f md = Page (p_addr p) (p_parent p) (p_type p) f (p_read_gen p) md (p_entries p)"

text \<open>
  Modelled from the spec: the call of \<^verbatim>\<open>__wt_rec_write\<close>, with the result and the
  outcome that the collaborator \<open>wt_rec_write\<close> gives for the page.
\<close>

definition rec_write :: "env \<Rightarrow> session \<Rightarrow> page \<Rightarrow> (session \<times> page) exec" where
  "rec_write env s p =
     (case wt_rec_write env p of
        (ret, f, md) \<Rightarrow> Return ret (log_event (EV_rec_write (p_addr p)) s, reconciled p f md))"

text \<open>
  Modelled from the spec: \<^verbatim>\<open>__wt_page_modify_init\<close> is not in src.  It prepares a page
  for a new reconciliation pass: the page gets a zeroed \<^verbatim>\<open>modify\<close> structure if it has
  none (\<open>with_modify\<close>), unless the allocation fails.
\<close>

definition with_modify :: "page \<Rightarrow> page" where
  "with_modify p =
     Page (p_addr p) (p_parent p) (p_type p) (p_flags p) (p_read_gen p)
          (case p_modify p of None \<Rightarrow> Some (Modify False (WT_ADDR 0 0) None) | Some md \<Rightarrow> Some md)
          (p_entries p)"

text \<open>
  Modelled from the spec: \<^verbatim>\<open>__wt_page_modify_set\<close> is not in src.  It marks the page
  dirty (\<open>mark_dirty\<close>) through its \<^verbatim>\<open>modify\<close> structure, which must exist.
\<close>

definition mark_dirty :: "page \<Rightarrow> page" where
  "mark_dirty p =
     Page (p_addr p) (p_parent p) (p_type p) (p_flags p) (p_read_gen p)
          (case p_modify p of None \<Rightarrow> None
           | Some md \<Rightarrow> Some (Modify True (m_replace md) (m_split md)))
          (p_entries p)"

text \<open>Modelled from the spec: the calls of the two functions, as described above.\<close>

definition page_modify_init :: "env \<Rightarrow> session \<Rightarrow> page \<Rightarrow> (session \<times> page) exec" where
  "page_modify_init env s p =
     (let s1 = log_event (EV_page_modify_init (p_addr p)) s in
      if wt_page_modify_init env p \<noteq> 0 then Return (wt_page_modify_init env p) (s1, p)
      else Return 0 (s1, with_modify p))"

definition page_modify_set :: "page \<Rightarrow> page exec" where
  "page_modify_set p = (case p_modify p of None \<Rightarrow> Fault | Some md \<Rightarrow> Return 0 (mark_dirty p))"

text \<open>
  \<^verbatim>\<open>__rec_root_dirty_update\<close>.  The function calls itself on the page a root split
  created; the fuel bounds the depth of these calls.
\<close>

fun rec_root_dirty_update :: "nat \<Rightarrow> env \<Rightarrow> session \<Rightarrow> page \<Rightarrow> session exec" where
  "rec_root_dirty_update 0 env s p = Spin"
| "rec_root_dirty_update (Suc fuel) env s p =
     (case (if F_ISSET p WT_PAGE_REC_MASK = WT_PAGE_REC_EMPTY then
              (case rec_root_addr_update env s 0 0 of
                 Fault \<Rightarrow> Fault
               | Spin \<Rightarrow> Spin
               | Return ret s1 \<Rightarrow>
                   if ret \<noteq> 0 then Return ret (s1, None)
                   else Return 0 (s1\<lparr>root_page := 0\<rparr>, None))
            else if F_ISSET p WT_PAGE_REC_MASK = WT_PAGE_REC_REPLACE then
              (case p_modify p of
                 None \<Rightarrow> Fault
               | Some md \<Rightarrow>
                   (case rec_root_addr_update env s (a_addr (m_replace md)) (a_size (m_replace md)) of
                      Fault \<Rightarrow> Fault
                    | Spin \<Rightarrow> Spin
                    | Return ret s1 \<Rightarrow>
                        if ret \<noteq> 0 then Return ret (s1, None)
                        else Return 0 (s1\<lparr>root_page := 0\<rparr>, None)))
            else if F_ISSET p WT_PAGE_REC_MASK = WT_PAGE_REC_SPLIT then
              (case p_modify p of
                 None \<Rightarrow> Fault
               | Some md \<Rightarrow> Return 0 (s, m_split md))
            else Return 0 (s, None)) of
        Fault \<Rightarrow> Fault
      | Spin \<Rightarrow> Spin
      | Return ret (s1, next) \<Rightarrow>
          if ret \<noteq> 0 then Return ret s1
          else
            (case rec_discard env s1 p of
               Fault \<Rightarrow> Fault
             | Spin \<Rightarrow> Spin
             | Return ret2 s2 \<Rightarrow>
                 if ret2 \<noteq> 0 then Return ret2 s2
                 else
                   (case next of
                      None \<Rightarrow> Return 0 s2
                    | Some nx \<Rightarrow>
                        (case page_modify_init env s2 nx of
                           Fault \<Rightarrow> Fault
                         | Spin \<Rightarrow> Spin
                         | Return ret3 (s3, nx1) \<Rightarrow>
                             if ret3 \<noteq> 0 then Return ret3 s3
                             else
                               (case page_modify_set nx1 of
                                  Fault \<Rightarrow> Fault
                                | Spin \<Rightarrow> Spin
                                | Return ret4 nx2 \<Rightarrow>
                                    (case rec_write env s3 (F_CLR nx2 WT_PAGE_REC_MASK) of
                                       Fault \<Rightarrow> Fault
                                     | Spin \<Rightarrow> Spin
                                     | Return ret5 (s5, nx3) \<Rightarrow>
                                         if ret5 \<noteq> 0 then Return ret5 s5
                                         else rec_root_dirty_update fuel env s5 nx3))))))"

subsection \<open>Review and eviction\<close>

text \<open>\<^verbatim>\<open>__rec_review\<close>.\<close>

definition rec_review ::
  "nat \<Rightarrow> session \<Rightarrow> wt_ref \<Rightarrow> page \<Rightarrow> 32 word \<Rightarrow> (session \<times> wt_ref \<times> page) exec" where
  "rec_review fuel s r p flags =
     (case (if LF_ISSET flags WT_REC_SINGLE = 0
            then
              (case hazard_exclusive fuel s (state r) (page r) (LF_ISSET flags WT_REC_WAIT \<noteq> 0) of
                 Fault \<Rightarrow> Fault
               | Spin \<Rightarrow> Spin
               | Return ret (s1, st1) \<Rightarrow> Return ret (s1, r\<lparr>state := st1\<rparr>, p_addr p))
            else Return 0 (s, r, 0)) of
        Fault \<Rightarrow> Fault
      | Spin \<Rightarrow> Spin
      | Return ret (s1, r1, last_page) \<Rightarrow>
          if ret \<noteq> 0 then Return ret (s1, r1, p)
          else
            (case (if is_internal (p_type p) then rec_excl fuel s1 p last_page flags
                   else Return 0 (s1, p, last_page)) of
               Fault \<Rightarrow> Fault
             | Spin \<Rightarrow> Spin
             | Return ret2 (s2, p2, last2) \<Rightarrow>
                 if ret2 \<noteq> 0 \<and> LF_ISSET flags WT_REC_SINGLE = 0 \<and> last2 \<noteq> 0 then
                   (case rec_excl_clear r1 p2 last2 of
                      Fault \<Rightarrow> Fault
                    | Spin \<Rightarrow> Spin
                    | Return ret3 (r3, p3) \<Rightarrow> Return ret2 (s2, r3, p3))
                 else Return ret2 (s2, r1, p2)))"

text \<open>The label \<^verbatim>\<open>err\<close> of \<^verbatim>\<open>__wt_rec_evict\<close>.\<close>

definition evict_err ::
  "32 word \<Rightarrow> int \<Rightarrow> session \<Rightarrow> wt_ref \<Rightarrow> page \<Rightarrow> (session \<times> wt_ref \<times> page) exec" where
  "evict_err flags ret s r p =
     (if LF_ISSET flags WT_REC_SINGLE = 0 then
        (case rec_excl_clear r p 0 of
           Fault \<Rightarrow> Fault
         | Spin \<Rightarrow> Spin
         | Return ret1 (r1, p1) \<Rightarrow> Return ret (s, r1, p1))
      else Return ret (s, r, p))"

text \<open>
  \<^verbatim>\<open>__wt_rec_evict\<close>: the candidate page \<open>p\<close> with its slot \<open>r\<close> (\<^verbatim>\<open>page->ref\<close>).  The
  result carries the slot and the page as the call left them; after a discard the
  page is the memory that was handed to \<^verbatim>\<open>__wt_page_out\<close>.
\<close>

definition wt_rec_evict ::
  "nat \<Rightarrow> env \<Rightarrow> session \<Rightarrow> wt_ref \<Rightarrow> page \<Rightarrow> 32 word \<Rightarrow> (session \<times> wt_ref \<times> page) exec" where
  "wt_rec_evict fuel env s r p flags =
     (if F_ISSET p WT_PAGE_REC_SPLIT_MERGE \<noteq> 0 then
        Return 0 (s, r\<lparr>state := WT_REF_MEM\<rparr>,
                  Page (p_addr p) (p_parent p) (p_type p) (p_flags p)
                       (wt_cache_read_gen env) (p_modify p) (p_entries p))
      else
        (case rec_review fuel s r p flags of
           Fault \<Rightarrow> Fault
         | Spin \<Rightarrow> Spin
         | Return ret (s1, r1, p1) \<Rightarrow>
             if ret \<noteq> 0 then Return ret (s1, r1, p1)
             else
               (case (if wt_page_is_modified p1 then rec_write env s1 p1
                      else Return 0 (s1, p1)) of
                  Fault \<Rightarrow> Fault
                | Spin \<Rightarrow> Spin
                | Return ret2 (s2, p2) \<Rightarrow>
                    if ret2 \<noteq> 0 then evict_err flags ret2 s2 r1 p2
                    else
                      (let s3 = (if LF_ISSET flags WT_REC_SINGLE = 0 \<and> is_internal (p_type p2)
                                 then s2\<lparr>cache_evict_internal := cache_evict_internal s2 + 1\<rparr>
                                 else s2)
                       in if F_ISSET p2 WT_PAGE_REC_MASK = 0 then
                            (let s4 = s3\<lparr>cache_evict_unmodified := cache_evict_unmodified s3 + 1\<rparr>
                             in if WT_PAGE_IS_ROOT p2 then
                                  (case rec_root_clean_update env s4 p2 of
                                     Fault \<Rightarrow> Fault
                                   | Spin \<Rightarrow> Spin
                                   | Return ret3 s5 \<Rightarrow>
                                       if ret3 \<noteq> 0 then evict_err flags ret3 s5 r1 p2
                                       else Return 0 (s5, r1, p2))
                                else
                                  (case rec_page_clean_update env s4 r1 p2 of
                                     Fault \<Rightarrow> Fault
                                   | Spin \<Rightarrow> Spin
                                   | Return ret3 (s5, r5) \<Rightarrow>
                                       if ret3 \<noteq> 0 then evict_err flags ret3 s5 r5 p2
                                       else Return 0 (s5, r5, p2)))
                          else
                            (let s4 = s3\<lparr>cache_evict_modified := cache_evict_modified s3 + 1\<rparr>
                             in if WT_PAGE_IS_ROOT p2 then
                                  (case rec_root_dirty_update fuel env s4 p2 of
                                     Fault \<Rightarrow> Fault
                                   | Spin \<Rightarrow> Spin
                                   | Return ret3 s5 \<Rightarrow>
                                       if ret3 \<noteq> 0 then evict_err flags ret3 s5 r1 p2
                                       else Return 0 (s5, r1, p2))
                                else
                                  (case rec_page_dirty_update env s4 r1 p2 flags of
                                     Fault \<Rightarrow> Fault
                                   | Spin \<Rightarrow> Spin
                                   | Return ret3 (s5, r5, p5) \<Rightarrow>
                                       if ret3 \<noteq> 0 then evict_err flags ret3 s5 r5 p5
                                       else Return 0 (s5, r5, p5)))))))"

subsection \<open>Notions used to state the properties\<close>

text \<open>
  The calls that a discard of page \<open>p\<close> makes when nothing fails: every child that is
  not on disk is destroyed before the page itself, and destroying a page runs
  \<^verbatim>\<open>__wt_rec_track_wrapup\<close> if and only if the page has a \<^verbatim>\<open>modify\<close> structure, then
  \<^verbatim>\<open>__wt_page_out\<close>.
\<close>

fun discard_log :: "page \<Rightarrow> event list"
and discard_log_refs :: "ref list \<Rightarrow> event list"
where
  "discard_log (Page a par t f g m es) =
     (if is_internal t then discard_log_refs es else [])
     @ (if m \<noteq> None then [EV_track_wrapup a] else []) @ [EV_page_out a]"
| "discard_log_refs [] = []"
| "discard_log_refs (Ref st None ad # rs) = discard_log_refs rs"
| "discard_log_refs (Ref st (Some p) ad # rs) =
     (if st \<noteq> WT_REF_DISK then discard_log p else []) @ discard_log_refs rs"

text \<open>
  Nothing fails in a discard of \<open>p\<close>: every slot that is not on disk points to a page,
  and \<^verbatim>\<open>__wt_rec_track_wrapup\<close> succeeds on the pages that have a \<^verbatim>\<open>modify\<close> structure.
\<close>

fun discard_ok :: "env \<Rightarrow> page \<Rightarrow> bool"
and discard_ok_refs :: "env \<Rightarrow> ref list \<Rightarrow> bool"
where
  "discard_ok env (Page a par t f g m es) =
     ((if is_internal t then discard_ok_refs env es else True)
      \<and> (if m \<noteq> None then wt_rec_track_wrapup env (Page a par t f g m es) = 0 else True))"
| "discard_ok_refs env [] = True"
| "discard_ok_refs env (Ref st None ad # rs) = (st = WT_REF_DISK \<and> discard_ok_refs env rs)"
| "discard_ok_refs env (Ref st (Some p) ad # rs) =
     ((if st \<noteq> WT_REF_DISK then discard_ok env p else True) \<and> discard_ok_refs env rs)"

text \<open>No page of the tree lives at the address \<^verbatim>\<open>NULL\<close>.\<close>

fun addrs_ok :: "page \<Rightarrow> bool"
and addrs_ok_refs :: "ref list \<Rightarrow> bool"
where
  "addrs_ok (Page a par t f g m es) = (a \<noteq> 0 \<and> addrs_ok_refs es)"
| "addrs_ok_refs [] = True"
| "addrs_ok_refs (Ref st None ad # rs) = addrs_ok_refs rs"
| "addrs_ok_refs (Ref st (Some p) ad # rs) = (addrs_ok p \<and> addrs_ok_refs rs)"

text \<open>
  Every slot that the walk reaches below the page is on disk or \<open>LOCKED\<close>
  (\<open>locked_tree\<close>), respectively on disk or \<open>MEM\<close> (\<open>mem_tree\<close>).  The walk reaches the
  slots of an internal page and goes on below the slots that are not on disk.
\<close>

fun locked_tree :: "page \<Rightarrow> bool"
and locked_refs :: "ref list \<Rightarrow> bool"
where
  "locked_tree (Page a par t f g m es) = (a \<noteq> 0 \<and> (if is_internal t then locked_refs es else True))"
| "locked_refs [] = True"
| "locked_refs (Ref st None ad # rs) = (st = WT_REF_DISK \<and> locked_refs rs)"
| "locked_refs (Ref st (Some p) ad # rs) =
     ((st = WT_REF_DISK \<or> (st = WT_REF_LOCKED \<and> locked_tree p)) \<and> locked_refs rs)"

fun mem_tree :: "page \<Rightarrow> bool"
and mem_refs :: "ref list \<Rightarrow> bool"
where
  "mem_tree (Page a par t f g m es) = (if is_internal t then mem_refs es else True)"
| "mem_refs [] = True"
| "mem_refs (Ref st None ad # rs) = (st = WT_REF_DISK \<and> mem_refs rs)"
| "mem_refs (Ref st (Some p) ad # rs) =
     ((st = WT_REF_DISK \<or> (st = WT_REF_MEM \<and> mem_tree p)) \<and> mem_refs rs)"

text \<open>
  Modelled from the spec: the page that a root split created, made ready for its own
  reconciliation.  It has a \<^verbatim>\<open>modify\<close> structure, it is marked modified, and its
  reconciliation flags are cleared; nothing else changes.
\<close>

definition root_prepare :: "page \<Rightarrow> page" where
  "root_prepare nx =
     Page (p_addr nx) (p_parent nx) (p_type nx) (p_flags nx AND NOT WT_PAGE_REC_MASK) (p_read_gen nx)
          (Some (case p_modify nx of
                   None \<Rightarrow> Modify True (WT_ADDR 0 0) None
                 | Some md \<Rightarrow> Modify True (m_replace md) (m_split md)))
          (p_entries nx)"

text \<open>
  The chain of roots.  When the root splits, the page that the split created is
  prepared and written, which gives the next root (\<open>root_next\<close>).
  \<open>root_chain env n p\<close> says that the reconciliation outcomes met from the root \<open>p\<close> on
  are \<open>n\<close> splits followed by a replacement or an empty page, and that the discards,
  \<^verbatim>\<open>__wt_page_modify_init\<close> and the writer succeed on the way.  \<open>root_last\<close> is the last
  root of the chain, \<open>root_output\<close> the address its reconciliation produced, and
  \<open>root_log\<close> lists the external calls: each root is discarded before the next one is
  prepared and written, and the address the btree had is released when the last root
  is reached.
\<close>

definition root_next :: "env \<Rightarrow> page \<Rightarrow> page" where
  "root_next env nx =
     (case wt_rec_write env (root_prepare nx) of
        (ret, f, md) \<Rightarrow> reconciled (root_prepare nx) f md)"

definition split_page :: "page \<Rightarrow> page option" where
  "split_page p = (case p_modify p of None \<Rightarrow> None | Some md \<Rightarrow> m_split md)"

fun root_chain :: "env \<Rightarrow> nat \<Rightarrow> page \<Rightarrow> bool" where
  "root_chain env 0 p =
     (discard_ok env p
      \<and> (F_ISSET p WT_PAGE_REC_MASK = WT_PAGE_REC_EMPTY
         \<or> F_ISSET p WT_PAGE_REC_MASK = WT_PAGE_REC_REPLACE \<and> p_modify p \<noteq> None))"
| "root_chain env (Suc n) p =
     (discard_ok env p
      \<and> F_ISSET p WT_PAGE_REC_MASK = WT_PAGE_REC_SPLIT
      \<and> (case split_page p of
           None \<Rightarrow> False
         | Some nx \<Rightarrow>
             wt_page_modify_init env nx = 0
             \<and> fst (wt_rec_write env (root_prepare nx)) = 0
             \<and> root_chain env n (root_next env nx)))"

fun root_last :: "env \<Rightarrow> nat \<Rightarrow> page \<Rightarrow> page" where
  "root_last env 0 p = p"
| "root_last env (Suc n) p =
     (case split_page p of None \<Rightarrow> p | Some nx \<Rightarrow> root_last env n (root_next env nx))"

definition root_output :: "page \<Rightarrow> wt_addr" where
  "root_output p =
     (if F_ISSET p WT_PAGE_REC_MASK = WT_PAGE_REC_EMPTY then WT_ADDR 0 0
      else case p_modify p of
             None \<Rightarrow> WT_ADDR 0 0
           | Some md \<Rightarrow> WT_ADDR (a_addr (m_replace md)) (a_size (m_replace md)))"

fun root_log :: "env \<Rightarrow> wt_addr \<Rightarrow> nat \<Rightarrow> page \<Rightarrow> event list" where
  "root_log env old 0 p =
     (if a_addr old \<noteq> 0 then [EV_bm_free (a_addr old) (a_size old), EV_free_ptr (a_addr old)]
      else [])
     @ discard_log p"
| "root_log env old (Suc n) p =
     discard_log p
     @ (case split_page p of
          None \<Rightarrow> []
        | Some nx \<Rightarrow>
            [EV_page_modify_init (p_addr nx), EV_rec_write (p_addr nx)]
            @ root_log env old n (root_next env nx))"

text \<open>
  \<open>root_nth env n p\<close> is the root that the \<open>n\<close>-th re-invocation of
  \<^verbatim>\<open>__rec_root_dirty_update\<close> receives, when the recursion gets that far: every root
  before it was split, was discarded, and the page the split created was prepared and
  written without a failure.  The sequence of reconciliation outcomes is finite when
  \<open>root_nth env n p\<close> is \<open>None\<close> for some \<open>n\<close>.  \<open>root_splits_log\<close> lists the external
  calls made for the first \<open>n\<close> roots of a chain.
\<close>

fun root_nth :: "env \<Rightarrow> nat \<Rightarrow> page \<Rightarrow> page option" where
  "root_nth env 0 p = Some p"
| "root_nth env (Suc n) p =
     (if F_ISSET p WT_PAGE_REC_MASK = WT_PAGE_REC_SPLIT \<and> discard_ok env p then
        (case split_page p of
           None \<Rightarrow> None
         | Some nx \<Rightarrow>
             if wt_page_modify_init env nx = 0 \<and> fst (wt_rec_write env (root_prepare nx)) = 0
             then root_nth env n (root_next env nx)
             else None)
      else None)"

fun root_splits_log :: "env \<Rightarrow> nat \<Rightarrow> page \<Rightarrow> event list" where
  "root_splits_log env 0 p = []"
| "root_splits_log env (Suc n) p =
     discard_log p
     @ (case split_page p of
          None \<Rightarrow> []
        | Some nx \<Rightarrow>
            [EV_page_modify_init (p_addr nx), EV_rec_write (p_addr nx)]
            @ root_splits_log env n (root_next env nx))"

text \<open>
  Every slot that a walk reaches below the page and that is not on disk has a page.
\<close>

fun present_tree :: "page \<Rightarrow> bool"
and present_refs :: "ref list \<Rightarrow> bool"
where
  "present_tree (Page a par t f g m es) = (if is_internal t then present_refs es else True)"
| "present_refs [] = True"
| "present_refs (Ref st None ad # rs) = (st = WT_REF_DISK \<and> present_refs rs)"
| "present_refs (Ref st (Some p) ad # rs) =
     ((if st \<noteq> WT_REF_DISK then present_tree p else True) \<and> present_refs rs)"

text \<open>The pages to which the hazard array holds a reference.\<close>

definition hazard_pages :: "session \<Rightarrow> ptr set" where
  "hazard_pages s = set (filter (\<lambda>h. h \<noteq> 0) (conn_hazard s))"

text \<open>
  Modelled from the spec: what the review decides for one child slot, given the pages
  \<open>H\<close> that have a hazard reference.  A slot on disk is skipped.  A slot that is
  \<open>LOCKED\<close> or \<open>READING\<close> aborts the review with \<^verbatim>\<open>WT_ERROR\<close>.  A child in memory with
  none of \<^verbatim>\<open>EMPTY\<close>, \<^verbatim>\<open>SPLIT\<close>, \<^verbatim>\<open>SPLIT_MERGE\<close> aborts it with 1.  Unless
  \<^verbatim>\<open>WT_REC_SINGLE\<close> is set, exclusive access to the child is requested next: a hazard
  reference on the child makes the review wait when \<^verbatim>\<open>WT_REC_WAIT\<close> is set and aborts
  it with 1 otherwise, the slot staying \<open>MEM\<close>; without one the slot becomes
  \<open>LOCKED\<close>.  Then a \<^verbatim>\<open>SPLIT_MERGE\<close> child is accepted whether it is dirty or not, and
  a \<^verbatim>\<open>SPLIT\<close> or \<^verbatim>\<open>EMPTY\<close> child is accepted if it is clean and aborts the review
  with 1 if it is dirty.  A verdict carries the state the slot is left in.  A slot
  that is \<open>MEM\<close> and has no page is outside the specification (\<open>V_fault\<close>).
\<close>

datatype verdict = V_skip | V_abort int ref_state | V_accept ref_state | V_wait | V_fault

definition spec_child_verdict :: "ptr set \<Rightarrow> 32 word \<Rightarrow> ref_state \<Rightarrow> page option \<Rightarrow> verdict" where
  "spec_child_verdict H flags st pg =
     (case st of
        WT_REF_DISK \<Rightarrow> V_skip
      | WT_REF_LOCKED \<Rightarrow> V_abort WT_ERROR WT_REF_LOCKED
      | WT_REF_READING \<Rightarrow> V_abort WT_ERROR WT_REF_READING
      | WT_REF_MEM \<Rightarrow>
          (case pg of
             None \<Rightarrow> V_fault
           | Some p \<Rightarrow>
               if F_ISSET p WT_PAGE_REC_EMPTY = 0 \<and> F_ISSET p WT_PAGE_REC_SPLIT = 0
                  \<and> F_ISSET p WT_PAGE_REC_SPLIT_MERGE = 0
               then V_abort 1 WT_REF_MEM
               else if LF_ISSET flags WT_REC_SINGLE = 0 \<and> p_addr p \<in> H
               then (if LF_ISSET flags WT_REC_WAIT \<noteq> 0 then V_wait else V_abort 1 WT_REF_MEM)
               else if F_ISSET p WT_PAGE_REC_SPLIT_MERGE \<noteq> 0 \<or> \<not> wt_page_is_modified p
               then V_accept (if LF_ISSET flags WT_REC_SINGLE = 0 then WT_REF_LOCKED else WT_REF_MEM)
               else V_abort 1 (if LF_ISSET flags WT_REC_SINGLE = 0 then WT_REF_LOCKED else WT_REF_MEM)))"

text \<open>
  Modelled from the spec: the review walk as a function of the tree, the flags and the
  pages with a hazard reference.  The child slots are visited in sibling order; the
  first abort ends the walk; the walk recurses into an accepted child that is an
  internal page before it goes on with the next sibling.  The result carries the
  slots as the walk leaves them and the last page that was accepted.
\<close>

fun spec_walk :: "ptr set \<Rightarrow> 32 word \<Rightarrow> page \<Rightarrow> ptr \<Rightarrow> (page \<times> ptr) exec"
and spec_walk_refs :: "ptr set \<Rightarrow> 32 word \<Rightarrow> ref list \<Rightarrow> ptr \<Rightarrow> (ref list \<times> ptr) exec"
where
  "spec_walk H flags (Page a par t f g m es) lst =
     (case spec_walk_refs H flags es lst of
        Fault \<Rightarrow> Fault
      | Spin \<Rightarrow> Spin
      | Return e (es', l') \<Rightarrow> Return e (Page a par t f g m es', l'))"
| "spec_walk_refs H flags [] lst = Return 0 ([], lst)"
| "spec_walk_refs H flags (Ref st pg ad # rs) lst =
     (case spec_child_verdict H flags st pg of
        V_skip \<Rightarrow>
          (case spec_walk_refs H flags rs lst of
             Fault \<Rightarrow> Fault
           | Spin \<Rightarrow> Spin
           | Return e (rs', l') \<Rightarrow> Return e (Ref st pg ad # rs', l'))
      | V_abort e st' \<Rightarrow> Return e (Ref st' pg ad # rs, lst)
      | V_wait \<Rightarrow> Spin
      | V_fault \<Rightarrow> Fault
      | V_accept st' \<Rightarrow>
          (case pg of
             None \<Rightarrow> Fault
           | Some p \<Rightarrow>
               (case (if is_internal (p_type p) then spec_walk H flags p (p_addr p)
                      else Return 0 (p, p_addr p)) of
                  Fault \<Rightarrow> Fault
                | Spin \<Rightarrow> Spin
                | Return e (p', l') \<Rightarrow>
                    if e \<noteq> 0 then Return e (Ref st' (Some p') ad # rs, l')
                    else
                      (case spec_walk_refs H flags rs l' of
                         Fault \<Rightarrow> Fault
                       | Spin \<Rightarrow> Spin
                       | Return e' (rs', l'') \<Rightarrow> Return e' (Ref st' (Some p') ad # rs', l'')))))"

subsection \<open>Concrete sessions, collaborators and trees\<close>

text \<open>A session with an empty hazard array and no root address, and collaborators that succeed.\<close>

definition session0 :: session where
  "session0 = \<lparr>conn_hazard = [], cache_hazard = [], hazard_elem = 0, root_page = 0,
     root_addr = WT_ADDR 0 0, root_update = False, cache_evict_internal = 0,
     cache_evict_unmodified = 0, cache_evict_modified = 0, cache_evict_hazard = 0,
     rec_hazard = 0, trace = []\<rparr>"

definition env_ok :: env where
  "env_ok = \<lparr>wt_rec_write = (\<lambda>p. (0, p_flags p, p_modify p)),
     wt_rec_track_wrapup = (\<lambda>p. 0), wt_calloc = 0, wt_bm_free = (\<lambda>a sz. 0),
     wt_page_modify_init = (\<lambda>p. 0), wt_cache_read_gen = 7\<rparr>"

text \<open>A session in which readers hold hazard references to the pages at addresses 300 and 200.\<close>

definition session_hz :: session where
  "session_hz = session0\<lparr>conn_hazard := [0, 300, 0, 200]\<rparr>"

text \<open>A leaf that an earlier reconciliation split and that has been changed since.\<close>

definition leaf_dirty_split :: page where
  "leaf_dirty_split =
     Page 200 100 WT_PAGE_ROW_LEAF WT_PAGE_REC_SPLIT 0 (Some (Modify True (WT_ADDR 0 0) None)) []"

text \<open>A clean internal page, never reconciled, whose only child is that leaf.\<close>

definition int_with_dirty_split :: page where
  "int_with_dirty_split =
     Page 100 50 WT_PAGE_ROW_INT 0 0 None [Ref WT_REF_MEM (Some leaf_dirty_split) ADDR_NULL]"

definition slot_mem :: wt_ref where
  "slot_mem = \<lparr>state = WT_REF_MEM, page = 100, addr = ADDR_NULL\<rparr>"

text \<open>
  More trees and slots: a clean leaf that an earlier reconciliation split; a dirty
  internal page with that leaf as its first child and a second child on disk, and the
  same page as a successful review leaves it; a slot that is already \<open>LOCKED\<close> and whose
  address was allocated on its own; a page created by a split of another page; a clean
  leaf that was never reconciled.  Then collaborators whose writer reports an empty page,
  respectively a replacement at address 10 of size 100, and one whose allocator fails.
\<close>

definition leaf_clean_split :: page where
  "leaf_clean_split =
     Page 200 100 WT_PAGE_ROW_LEAF WT_PAGE_REC_SPLIT 0 (Some (Modify False (WT_ADDR 0 0) None)) []"

definition int_dirty :: page where
  "int_dirty =
     Page 100 50 WT_PAGE_ROW_INT 0 0 (Some (Modify True (WT_ADDR 0 0) None))
       [Ref WT_REF_MEM (Some leaf_clean_split) ADDR_NULL, Ref WT_REF_DISK None (ADDR_ON_PAGE 64)]"

definition int_dirty_locked :: page where
  "int_dirty_locked =
     Page 100 50 WT_PAGE_ROW_INT 0 0 (Some (Modify True (WT_ADDR 0 0) None))
       [Ref WT_REF_LOCKED (Some leaf_clean_split) ADDR_NULL, Ref WT_REF_DISK None (ADDR_ON_PAGE 64)]"

definition slot_locked :: wt_ref where
  "slot_locked = \<lparr>state = WT_REF_LOCKED, page = 100, addr = ADDR_OFF_PAGE (WT_ADDR 4096 32)\<rparr>"

definition int_split_merge :: page where
  "int_split_merge = Page 100 50 WT_PAGE_ROW_INT WT_PAGE_REC_SPLIT_MERGE 0 None []"

definition leaf_clean :: page where
  "leaf_clean = Page 100 50 WT_PAGE_ROW_LEAF 0 0 None []"

definition env_empty :: env where
  "env_empty = env_ok\<lparr>wt_rec_write := (\<lambda>p. (0, WT_PAGE_REC_EMPTY, Some (Modify False (WT_ADDR 0 0) None)))\<rparr>"

definition env_replace :: env where
  "env_replace = env_ok\<lparr>wt_rec_write := (\<lambda>p. (0, WT_PAGE_REC_REPLACE, Some (Modify False (WT_ADDR 10 100) None)))\<rparr>"


text \<open>
  A leaf that was never reconciled; a dirty internal page created by a split of another
  page; internal pages whose first slot is on disk and whose second slot holds one of
  these, or is being read.  A root that its reconciliation split, with the page the
  split created, and a session whose btree has a root address.  A slot for a page at
  address 200.
\<close>

definition leaf_plain :: page where
  "leaf_plain = Page 200 100 WT_PAGE_ROW_LEAF 0 0 None []"

definition int_merge_child :: page where
  "int_merge_child =
     Page 200 100 WT_PAGE_ROW_INT WT_PAGE_REC_SPLIT_MERGE 0 (Some (Modify True (WT_ADDR 0 0) None))
       [Ref WT_REF_DISK None (ADDR_ON_PAGE 64)]"

definition int_with_plain :: page where
  "int_with_plain =
     Page 100 50 WT_PAGE_ROW_INT 0 0 None
       [Ref WT_REF_DISK None (ADDR_ON_PAGE 64), Ref WT_REF_MEM (Some leaf_plain) ADDR_NULL]"

definition int_with_merge :: page where
  "int_with_merge =
     Page 100 50 WT_PAGE_ROW_INT 0 0 None
       [Ref WT_REF_DISK None (ADDR_ON_PAGE 64), Ref WT_REF_MEM (Some int_merge_child) ADDR_NULL]"

definition int_with_reading :: page where
  "int_with_reading =
     Page 100 50 WT_PAGE_ROW_INT 0 0 None
       [Ref WT_REF_DISK None (ADDR_ON_PAGE 64), Ref WT_REF_READING None ADDR_NULL]"

definition new_root :: page where
  "new_root =
     Page 300 0 WT_PAGE_ROW_INT WT_PAGE_REC_SPLIT_MERGE 0 None
       [Ref WT_REF_DISK None (ADDR_ON_PAGE 8), Ref WT_REF_DISK None (ADDR_ON_PAGE 16)]"

definition root_split :: page where
  "root_split =
     Page 100 0 WT_PAGE_ROW_INT WT_PAGE_REC_SPLIT 0 (Some (Modify False (WT_ADDR 0 0) (Some new_root)))
       [Ref WT_REF_DISK None (ADDR_ON_PAGE 8), Ref WT_REF_DISK None (ADDR_ON_PAGE 16)]"

definition session_root :: session where
  "session_root = session0\<lparr>root_page := 100, root_addr := WT_ADDR 4096 64\<rparr>"

definition slot_200 :: wt_ref where
  "slot_200 = \<lparr>state = WT_REF_MEM, page = 200, addr = ADDR_NULL\<rparr>"

text \<open>
  A clean leaf with a \<^verbatim>\<open>modify\<close> structure.  Collaborators whose wrap-up fails: on
  every page, and on the page at address 100 only.
\<close>

definition leaf_clean_modify :: page where
  "leaf_clean_modify = Page 100 50 WT_PAGE_ROW_LEAF 0 0 (Some (Modify False (WT_ADDR 0 0) None)) []"

definition env_wrapfail :: env where
  "env_wrapfail = env_ok\<lparr>wt_rec_track_wrapup := (\<lambda>p. 5)\<rparr>"

definition env_replace_wrapfail :: env where
  "env_replace_wrapfail =
     env_replace\<lparr>wt_rec_track_wrapup := (\<lambda>p. if p_addr p = 100 then 5 else 0)\<rparr>"

text \<open>
  A writer that looks at the page it is given: it reports a replacement for a page
  that is marked modified and has no reconciliation flag, and fails with 22 otherwise.
  The same collaborators with a block manager whose free fails.
\<close>

definition env_root :: env where
  "env_root = env_ok\<lparr>wt_rec_write :=
     (\<lambda>p. if wt_page_is_modified p \<and> F_ISSET p WT_PAGE_REC_MASK = 0
          then (0, WT_PAGE_REC_REPLACE, Some (Modify False (WT_ADDR 10 100) None))
          else (22, p_flags p, p_modify p))\<rparr>"

definition env_root_bmfail :: env where
  "env_root_bmfail = env_root\<lparr>wt_bm_free := (\<lambda>a sz. 5)\<rparr>"

text \<open>
  An internal page with five slots: one on disk; a dirty internal \<^verbatim>\<open>SPLIT_MERGE\<close> page
  at address 200, which has a clean \<^verbatim>\<open>SPLIT\<close> leaf at address 210 and a slot on disk;
  a clean \<^verbatim>\<open>EMPTY\<close> leaf at address 300; a dirty \<^verbatim>\<open>SPLIT\<close> leaf at address 400; a
  slot that is being read.  The same page with its first three slots only.  A session
  in which a reader holds a hazard reference to the page at address 210.
\<close>

definition int_family :: page where
  "int_family =
     Page 100 50 WT_PAGE_ROW_INT 0 0 None
       [Ref WT_REF_DISK None (ADDR_ON_PAGE 64),
        Ref WT_REF_MEM
          (Some (Page 200 100 WT_PAGE_ROW_INT WT_PAGE_REC_SPLIT_MERGE 0
                   (Some (Modify True (WT_ADDR 0 0) None))
                   [Ref WT_REF_MEM
                      (Some (Page 210 200 WT_PAGE_ROW_LEAF WT_PAGE_REC_SPLIT 0
                               (Some (Modify False (WT_ADDR 0 0) None)) []))
                      ADDR_NULL,
                    Ref WT_REF_DISK None (ADDR_ON_PAGE 8)]))
          ADDR_NULL,
        Ref WT_REF_MEM
          (Some (Page 300 100 WT_PAGE_ROW_LEAF WT_PAGE_REC_EMPTY 0
                   (Some (Modify False (WT_ADDR 0 0) None)) []))
          ADDR_NULL,
        Ref WT_REF_MEM
          (Some (Page 400 100 WT_PAGE_ROW_LEAF WT_PAGE_REC_SPLIT 0
                   (Some (Modify True (WT_ADDR 0 0) None)) []))
          ADDR_NULL,
        Ref WT_REF_READING None ADDR_NULL]"

definition int_family_ok :: page where
  "int_family_ok =
     Page 100 50 WT_PAGE_ROW_INT 0 0 None
       [Ref WT_REF_DISK None (ADDR_ON_PAGE 64),
        Ref WT_REF_MEM
          (Some (Page 200 100 WT_PAGE_ROW_INT WT_PAGE_REC_SPLIT_MERGE 0
                   (Some (Modify True (WT_ADDR 0 0) None))
                   [Ref WT_REF_MEM
                      (Some (Page 210 200 WT_PAGE_ROW_LEAF WT_PAGE_REC_SPLIT 0
                               (Some (Modify False (WT_ADDR 0 0) None)) []))
                      ADDR_NULL,
                    Ref WT_REF_DISK None (ADDR_ON_PAGE 8)]))
          ADDR_NULL,
        Ref WT_REF_MEM
          (Some (Page 300 100 WT_PAGE_ROW_LEAF WT_PAGE_REC_EMPTY 0
                   (Some (Modify False (WT_ADDR 0 0) None)) []))
          ADDR_NULL]"

definition session_hz_leaf :: session where
  "session_hz_leaf = session0\<lparr>conn_hazard := [0, 210]\<rparr>"

section \<open>Properties\<close>

declare bsearch_range.simps [simp del]

subsection \<open>The hazard snapshot\<close>

lemma hazard_compact_filter: "hazard_compact hs = filter (\<lambda>h. h \<noteq> 0) hs"
  by (induction hs) auto

lemma mset_qsort_insert: "mset (qsort_insert cmp x xs) = add_mset x (mset xs)"
  by (induction xs) auto

lemma mset_qsort: "mset (qsort cmp xs) = mset xs"
  by (induction xs) (auto simp: mset_qsort_insert)

lemma set_qsort_insert: "set (qsort_insert cmp x xs) = insert x (set xs)"
  by (induction xs) auto

lemma sorted_qsort_insert:
  "sorted xs \<Longrightarrow> sorted (qsort_insert hazard_qsort_cmp x xs)"
  by (induction xs) (auto simp: set_qsort_insert hazard_qsort_cmp_def split: if_splits)

lemma sorted_qsort: "sorted (qsort hazard_qsort_cmp xs)"
  by (induction xs) (auto simp: sorted_qsort_insert)

lemma length_qsort: "length (qsort cmp xs) = length xs"
  using mset_qsort [of cmp xs] by (metis size_mset)

text \<open>On a sorted array the binary search misses exactly the keys that are not in the range.\<close>

lemma bsearch_range_None:
  "sorted xs \<Longrightarrow> cmp = hazard_bsearch_cmp \<Longrightarrow> (bsearch_range cmp k xs lo hi = None) =
         (length xs < hi \<or> (\<forall>i. lo \<le> i \<and> i < hi \<longrightarrow> xs ! i \<noteq> k))"
proof (induction cmp k xs lo hi rule: bsearch_range.induct)
  case (1 cmp key xs lo hi)
  have cmp: "cmp = hazard_bsearch_cmp" by fact
  have srt: "sorted xs" by fact
  show ?case
  proof (cases "hi \<le> lo \<or> length xs < hi")
    case True
    then show ?thesis by (subst bsearch_range.simps) auto
  next
    case False
    define mid where "mid = (lo + hi) div 2"
    have b: "lo \<le> mid" "mid < hi" "hi \<le> length xs" using False by (auto simp: mid_def)
    consider (eq) "key = xs ! mid" | (lt) "key < xs ! mid" | (gt) "xs ! mid < key"
      using nat_neq_iff by blast
    then show ?thesis
    proof cases
      case eq
      have "bsearch_range cmp key xs lo hi = Some mid"
        using False eq cmp
        by (subst bsearch_range.simps) (simp add: hazard_bsearch_cmp_def mid_def [symmetric] Let_def)
      then show ?thesis using b eq by auto
    next
      case lt
      have c: "cmp key (xs ! mid) < 0" "cmp key (xs ! mid) \<noteq> 0"
        using lt cmp by (auto simp: hazard_bsearch_cmp_def)
      have ih: "(bsearch_range cmp key xs lo mid = None) =
         (length xs < mid \<or> (\<forall>i. lo \<le> i \<and> i < mid \<longrightarrow> xs ! i \<noteq> key))"
        using "1.IH"(1) [OF False mid_def refl c(2) c(1) srt cmp] .
      have up: "xs ! i \<noteq> key" if "mid \<le> i" "i < hi" for i
      proof -
        have "xs ! mid \<le> xs ! i" using srt b that by (auto intro: sorted_nth_mono)
        then show ?thesis using lt by simp
      qed
      have st: "bsearch_range cmp key xs lo hi = bsearch_range cmp key xs lo mid"
        using False c by (subst bsearch_range.simps) (simp add: mid_def [symmetric] Let_def)
      have "(\<forall>i. lo \<le> i \<and> i < mid \<longrightarrow> xs ! i \<noteq> key) = (\<forall>i. lo \<le> i \<and> i < hi \<longrightarrow> xs ! i \<noteq> key)"
      proof (intro iffI allI impI)
        fix i assume a: "\<forall>i. lo \<le> i \<and> i < mid \<longrightarrow> xs ! i \<noteq> key" and i: "lo \<le> i \<and> i < hi"
        show "xs ! i \<noteq> key"
        proof (cases "i < mid")
          case True then show ?thesis using a i by simp
        next
          case False then show ?thesis using up [of i] i by simp
        qed
      next
        fix i assume a: "\<forall>i. lo \<le> i \<and> i < hi \<longrightarrow> xs ! i \<noteq> key" and i: "lo \<le> i \<and> i < mid"
        then show "xs ! i \<noteq> key" using b by simp
      qed
      then show ?thesis using st ih b by simp
    next
      case gt
      have c: "\<not> cmp key (xs ! mid) < 0" "cmp key (xs ! mid) \<noteq> 0"
        using gt cmp by (auto simp: hazard_bsearch_cmp_def)
      have ih: "(bsearch_range cmp key xs (mid + 1) hi = None) =
         (length xs < hi \<or> (\<forall>i. mid + 1 \<le> i \<and> i < hi \<longrightarrow> xs ! i \<noteq> key))"
        using "1.IH"(2) [OF False mid_def refl c(2) c(1) srt cmp] .
      have dn: "xs ! i \<noteq> key" if "i \<le> mid" for i
      proof -
        have "xs ! i \<le> xs ! mid" using srt b that by (auto intro: sorted_nth_mono)
        then show ?thesis using gt by simp
      qed
      have st: "bsearch_range cmp key xs lo hi = bsearch_range cmp key xs (mid + 1) hi"
        using False c by (subst bsearch_range.simps) (simp add: mid_def [symmetric] Let_def)
      have "(\<forall>i. mid + 1 \<le> i \<and> i < hi \<longrightarrow> xs ! i \<noteq> key) = (\<forall>i. lo \<le> i \<and> i < hi \<longrightarrow> xs ! i \<noteq> key)"
      proof (intro iffI allI impI)
        fix i assume a: "\<forall>i. mid + 1 \<le> i \<and> i < hi \<longrightarrow> xs ! i \<noteq> key" and i: "lo \<le> i \<and> i < hi"
        show "xs ! i \<noteq> key"
        proof (cases "i \<le> mid")
          case True then show ?thesis using dn by simp
        next
          case False then show ?thesis using a i by simp
        qed
      next
        fix i assume a: "\<forall>i. lo \<le> i \<and> i < hi \<longrightarrow> xs ! i \<noteq> key" and i: "mid + 1 \<le> i \<and> i < hi"
        then show "xs ! i \<noteq> key" using b by simp
      qed
      then show ?thesis using st ih b by simp
    qed
  qed
qed

lemma bsearch_None_iff:
  "sorted xs \<Longrightarrow> (bsearch hazard_bsearch_cmp k xs (length xs) = None) = (k \<notin> set xs)"
  by (auto simp: bsearch_def bsearch_range_None [OF _ refl] in_set_conv_nth)

lemma hazard_copy_fields:
  "cache_hazard (hazard_copy s) = qsort hazard_qsort_cmp (hazard_compact (conn_hazard s))"
  "hazard_elem (hazard_copy s) = length (hazard_compact (conn_hazard s))"
  "conn_hazard (hazard_copy s) = conn_hazard s"
  "trace (hazard_copy s) = trace s"
  "rec_hazard (hazard_copy s) = rec_hazard s"
  "cache_evict_hazard (hazard_copy s) = cache_evict_hazard s"
  by (simp_all add: hazard_copy_def Let_def)

lemma hazard_copy_cong:
  "conn_hazard s' = conn_hazard s \<Longrightarrow> cache_hazard (hazard_copy s') = cache_hazard (hazard_copy s)"
  by (simp add: hazard_copy_fields)

lemma hazard_search_None:
  "(bsearch hazard_bsearch_cmp pg (cache_hazard (hazard_copy s)) (hazard_elem (hazard_copy s)) = None)
     = (pg \<notin> set (cache_hazard (hazard_copy s)))"
  using bsearch_None_iff [OF sorted_qsort, of pg "hazard_compact (conn_hazard s)"]
  by (simp add: length_qsort hazard_copy_fields)

lemma hazard_retry_absent:
  "pg \<notin> set (cache_hazard (hazard_copy s)) \<Longrightarrow>
   hazard_retry (Suc fuel) s st pg force = Return 0 (hazard_copy s, st)"
  using hazard_search_None [of pg s] by (simp add: Let_def)

lemma hazard_retry_present:
  "pg \<in> set (cache_hazard (hazard_copy s)) \<Longrightarrow>
   hazard_retry (Suc fuel) s st pg False =
     Return 1 ((hazard_copy s)\<lparr>rec_hazard := rec_hazard s + 1,
                               cache_evict_hazard := cache_evict_hazard s + 1\<rparr>, WT_REF_MEM)"
  using hazard_search_None [of pg s] by (simp add: Let_def hazard_copy_fields)

lemma hazard_retry_spin:
  "pg \<in> set (cache_hazard (hazard_copy s)) \<Longrightarrow> hazard_retry fuel s st pg True = Spin"
proof (induction fuel arbitrary: s)
  case 0
  then show ?case by simp
next
  case (Suc fuel)
  let ?s2 = "(hazard_copy s)\<lparr>rec_hazard := rec_hazard (hazard_copy s) + 1\<rparr>"
  have "pg \<in> set (cache_hazard (hazard_copy ?s2))"
    using Suc.prems by (simp add: hazard_copy_fields)
  then have "hazard_retry fuel ?s2 st pg True = Spin" by (rule Suc.IH)
  then show ?case using Suc.prems hazard_search_None [of pg s] by (simp add: Let_def)
qed

subsection \<open>Requesting exclusive access\<close>

text \<open>
  C8, as stated, fails: a slot that is already \<open>LOCKED\<close> on entry (the assertion of
  \<^verbatim>\<open>__hazard_exclusive\<close> allows it) and whose page has a hazard reference is \<open>MEM\<close> when
  the call returns without \<^verbatim>\<open>force\<close>, so the state is not the one of entry.
\<close>

theorem hazard_exclusive_entry_state_counterexample:
  "hazard_exclusive (Suc 0) session_hz WT_REF_LOCKED 200 False =
     Return 1 ((hazard_copy session_hz)\<lparr>rec_hazard := 1, cache_evict_hazard := 1\<rparr>, WT_REF_MEM)
   \<and> WT_REF_MEM \<noteq> WT_REF_LOCKED"
  by code_simp

text \<open>
  C8, amended.  For a slot that is \<open>MEM\<close> or \<open>LOCKED\<close>, \<^verbatim>\<open>__hazard_exclusive\<close> stores
  \<open>LOCKED\<close> and takes the snapshot: a sorted copy of exactly the hazard slots that are
  not \<^verbatim>\<open>NULL\<close>.  It returns 0, with the slot \<open>LOCKED\<close>, if and only if the page is not
  in the snapshot.  When the page is in the snapshot and \<^verbatim>\<open>force\<close> is not set it
  returns 1 and the slot is \<open>MEM\<close>, whatever of the two states it had on entry.  When
  the page is in the snapshot and \<^verbatim>\<open>force\<close> is set it does not return as long as the
  hazard array holds the page.
\<close>

theorem hazard_exclusive_snapshot:
  assumes "st = WT_REF_MEM \<or> st = WT_REF_LOCKED"
  shows "sorted (cache_hazard (hazard_copy s))
    \<and> mset (cache_hazard (hazard_copy s)) = mset (filter (\<lambda>h. h \<noteq> 0) (conn_hazard s))
    \<and> hazard_elem (hazard_copy s) = length (cache_hazard (hazard_copy s))
    \<and> ((\<exists>x. hazard_exclusive (Suc fuel) s st pg force = Return 0 x)
         = (pg \<notin> set (cache_hazard (hazard_copy s))))
    \<and> (pg \<notin> set (cache_hazard (hazard_copy s)) \<longrightarrow>
         hazard_exclusive (Suc fuel) s st pg force = Return 0 (hazard_copy s, WT_REF_LOCKED))
    \<and> (pg \<in> set (cache_hazard (hazard_copy s)) \<and> \<not> force \<longrightarrow>
         hazard_exclusive (Suc fuel) s st pg force =
           Return 1 ((hazard_copy s)\<lparr>rec_hazard := rec_hazard s + 1,
                                     cache_evict_hazard := cache_evict_hazard s + 1\<rparr>, WT_REF_MEM))
    \<and> (pg \<in> set (cache_hazard (hazard_copy s)) \<and> force \<longrightarrow>
         (\<forall>n. hazard_exclusive n s st pg force = Spin))"
proof -
  have ex: "hazard_exclusive n s st pg force = hazard_retry n s WT_REF_LOCKED pg force" for n
    using assms by (auto simp: hazard_exclusive_def)
  have absent: "hazard_exclusive (Suc fuel) s st pg force = Return 0 (hazard_copy s, WT_REF_LOCKED)"
    if "pg \<notin> set (cache_hazard (hazard_copy s))"
    unfolding ex using that by (rule hazard_retry_absent)
  have present: "hazard_exclusive (Suc fuel) s st pg force =
      Return 1 ((hazard_copy s)\<lparr>rec_hazard := rec_hazard s + 1,
                                cache_evict_hazard := cache_evict_hazard s + 1\<rparr>, WT_REF_MEM)"
    if "pg \<in> set (cache_hazard (hazard_copy s))" "\<not> force"
  proof -
    from that(2) have "force = False" by simp
    then show ?thesis unfolding ex using hazard_retry_present [OF that(1)] by (simp only:)
  qed
  have spin: "hazard_exclusive n s st pg force = Spin"
    if "pg \<in> set (cache_hazard (hazard_copy s))" "force" for n
  proof -
    from that(2) have "force = True" by simp
    then show ?thesis unfolding ex using hazard_retry_spin [OF that(1)] by (simp only:)
  qed
  have iff: "(\<exists>x. hazard_exclusive (Suc fuel) s st pg force = Return 0 x)
         = (pg \<notin> set (cache_hazard (hazard_copy s)))"
  proof (cases "pg \<in> set (cache_hazard (hazard_copy s))")
    case True
    then show ?thesis using present spin by (cases force) auto
  next
    case False
    then show ?thesis using absent by auto
  qed
  have snap: "sorted (cache_hazard (hazard_copy s))"
    "mset (cache_hazard (hazard_copy s)) = mset (filter (\<lambda>h. h \<noteq> 0) (conn_hazard s))"
    "hazard_elem (hazard_copy s) = length (cache_hazard (hazard_copy s))"
    by (simp_all add: hazard_copy_fields sorted_qsort mset_qsort length_qsort hazard_compact_filter)
  show ?thesis using snap iff absent present spin by blast
qed

theorem hazard_exclusive_snapshot_witness:
  "hazard_exclusive (Suc 0) session_hz WT_REF_MEM 200 False =
     Return 1 ((hazard_copy session_hz)\<lparr>rec_hazard := 1, cache_evict_hazard := 1\<rparr>, WT_REF_MEM)
   \<and> hazard_exclusive (Suc 0) session_hz WT_REF_MEM 100 False =
     Return 0 (hazard_copy session_hz, WT_REF_LOCKED)
   \<and> hazard_exclusive 9 session_hz WT_REF_LOCKED 300 True = Spin
   \<and> cache_hazard (hazard_copy session_hz) = [200, 300]"
proof -
  have snap: "cache_hazard (hazard_copy session_hz) = [200, 300]" by code_simp
  have st: "WT_REF_MEM = WT_REF_MEM \<or> WT_REF_MEM = WT_REF_LOCKED"
    "WT_REF_LOCKED = WT_REF_MEM \<or> WT_REF_LOCKED = WT_REF_LOCKED" by simp_all
  have z: "rec_hazard session_hz = 0" "cache_evict_hazard session_hz = 0"
    by (simp_all add: session_hz_def session0_def)
  show ?thesis
    using hazard_exclusive_snapshot [OF st(1), of session_hz 0 200 False]
      hazard_exclusive_snapshot [OF st(1), of session_hz 0 100 False]
      hazard_exclusive_snapshot [OF st(2), of session_hz 0 300 True]
    by (simp add: snap z)
qed

subsection \<open>Locks left behind by a failed review\<close>

text \<open>
  C1 does not hold of the code.  The candidate \<open>int_with_dirty_split\<close> is evicted
  without \<^verbatim>\<open>WT_REC_SINGLE\<close>; no hazard reference exists.  The review locks the
  candidate, then its child: the child has \<^verbatim>\<open>WT_PAGE_REC_SPLIT\<close>, so
  \<^verbatim>\<open>__rec_excl_page\<close> takes exclusive access, and the second test fails because the
  child is dirty.  \<^verbatim>\<open>__rec_excl\<close> returns before it records the child in
  \<^verbatim>\<open>*last_pagep\<close>, so \<^verbatim>\<open>__rec_excl_clear\<close> stops at the candidate: the call returns 1
  with the candidate's slot back to \<open>MEM\<close> and the child's slot still \<open>LOCKED\<close>.
\<close>

theorem evict_leaves_child_locked:
  "wt_rec_evict (Suc 0) env_ok session0 slot_mem int_with_dirty_split 0 =
     Return 1 (session0, slot_mem,
       Page 100 50 WT_PAGE_ROW_INT 0 0 None [Ref WT_REF_LOCKED (Some leaf_dirty_split) ADDR_NULL])"
  by code_simp

subsection \<open>What a discard does\<close>

lemma rec_discard_log:
  "discard_ok env p \<Longrightarrow> rec_discard env s p = Return 0 (s\<lparr>trace := trace s @ discard_log p\<rparr>)"
  "discard_ok_refs env rs \<Longrightarrow> rec_discard_refs env s rs = Return 0 (s\<lparr>trace := trace s @ discard_log_refs rs\<rparr>)"
proof (induction env s p and env s rs rule: rec_discard_rec_discard_refs.induct)
  case (1 env s a par t f g m es)
  show ?case
  proof (cases "is_internal t")
    case True
    then have "rec_discard_refs env s es = Return 0 (s\<lparr>trace := trace s @ discard_log_refs es\<rparr>)"
      using 1 by simp
    then show ?thesis using True "1.prems"
      by (simp add: rec_discard_page_def log_event_def Let_def split: if_splits)
  next
    case False
    then show ?thesis using "1.prems" by (simp add: rec_discard_page_def log_event_def Let_def split: if_splits)
  qed
next
  case (2 env s)
  then show ?case by simp
next
  case (3 env s st pg ad rs)
  show ?case
  proof (cases "st = WT_REF_DISK")
    case True
    then show ?thesis using 3 by (cases pg) simp_all
  next
    case False
    then obtain p where pg: "pg = Some p" using "3.prems" by (cases pg) simp_all
    have a: "rec_discard env s p = Return 0 (s\<lparr>trace := trace s @ discard_log p\<rparr>)"
      using "3.IH"(1) [OF False pg] "3.prems" False pg by simp
    have "rec_discard_refs env (s\<lparr>trace := trace s @ discard_log p\<rparr>) rs =
        Return 0 (s\<lparr>trace := trace s @ discard_log p\<rparr>\<lparr>trace := trace (s\<lparr>trace := trace s @ discard_log p\<rparr>) @ discard_log_refs rs\<rparr>)"
      using "3.IH"(2) [OF False pg a] "3.prems" False pg by simp
    then show ?thesis using a False pg by simp
  qed
qed

subsection \<open>What the review walk changes\<close>

lemma hazard_retry_trace:
  "hazard_retry fuel s st pg force = Return ret (s', st') \<Longrightarrow>
     trace s' = trace s \<and> conn_hazard s' = conn_hazard s"
proof (induction fuel arbitrary: s)
  case 0
  then show ?case by simp
next
  case (Suc fuel)
  show ?case
  proof (cases "bsearch hazard_bsearch_cmp pg (cache_hazard (hazard_copy s)) (hazard_elem (hazard_copy s)) = None")
    case True
    then show ?thesis using Suc.prems by (auto simp: Let_def hazard_copy_def)
  next
    case False
    show ?thesis
    proof (cases force)
      case True
      then have "hazard_retry fuel ((hazard_copy s)\<lparr>rec_hazard := rec_hazard (hazard_copy s) + 1\<rparr>) st pg force
          = Return ret (s', st')"
        using Suc.prems False by (simp add: Let_def)
      from Suc.IH [OF this] show ?thesis by (simp add: hazard_copy_def Let_def)
    next
      case f: False
      then show ?thesis using Suc.prems False by (auto simp: Let_def hazard_copy_def)
    qed
  qed
qed

lemma hazard_exclusive_trace:
  "hazard_exclusive fuel s st pg force = Return ret (s', st') \<Longrightarrow>
     trace s' = trace s \<and> conn_hazard s' = conn_hazard s"
  by (auto simp: hazard_exclusive_def split: if_splits dest: hazard_retry_trace)

lemma rec_excl_page_trace:
  "rec_excl_page fuel s st pg p flags = Return ret (s', st') \<Longrightarrow>
     trace s' = trace s \<and> conn_hazard s' = conn_hazard s"
  by (auto simp: rec_excl_page_def split: if_splits exec.splits dest: hazard_exclusive_trace)

lemma rec_excl_trace:
  "rec_excl fuel s p lst flags = Return ret (s', p', last') \<Longrightarrow>
     trace s' = trace s \<and> conn_hazard s' = conn_hazard s"
  "rec_excl_refs fuel s rs lst flags = Return ret (s', rs', last') \<Longrightarrow>
     trace s' = trace s \<and> conn_hazard s' = conn_hazard s"
proof (induction fuel s p lst flags and fuel s rs lst flags
       arbitrary: ret s' p' last' and ret s' rs' last' rule: rec_excl_rec_excl_refs.induct)
  case (1 fuel s a par t f g m es last_page flags)
  then show ?case by (auto split: exec.splits)
next
  case (3 fuel s pg ad rs last_page flags)
  then show ?case by (auto split: exec.splits)
next
  case (7 fuel s p ad rs last_page flags)
  from "7.prems" obtain r1 s1 st1 where
    a: "rec_excl_page fuel s WT_REF_MEM (p_addr p) p flags = Return r1 (s1, st1)"
    by (auto split: exec.splits)
  note t1 = rec_excl_page_trace [OF a]

  show ?case
  proof (cases "r1 = 0")
    case False
    then show ?thesis using "7.prems" a t1 by auto
  next
    case True
    from "7.prems" a True obtain r2 s2 p2 l2 where
      b: "(if is_internal (p_type p) then rec_excl fuel s1 p (p_addr p) flags
           else Return 0 (s1, p, p_addr p)) = Return r2 (s2, p2, l2)"
      by (auto split: exec.splits)
    have t2: "trace s2 = trace s1 \<and> conn_hazard s2 = conn_hazard s1"
    proof (cases "is_internal (p_type p)")
      case i: True
      then have "rec_excl fuel s1 p (p_addr p) flags = Return r2 (s2, p2, l2)" using b by simp
      from "7.IH"(1) [OF a refl _ i this] True show ?thesis by simp
    next
      case False
      then show ?thesis using b by simp
    qed
    show ?thesis
    proof (cases "r2 = 0")
      case False
      then show ?thesis using "7.prems" a True b t1 t2 by (auto split: if_splits)
    next
      case r2: True
      from "7.prems" a True b r2 obtain r3 s3 rs3 l3 where
        c: "rec_excl_refs fuel s2 rs l2 flags = Return r3 (s3, rs3, l3)" and "s' = s3"
        by (auto split: exec.splits if_splits)
      have n: "\<not> r1 \<noteq> 0" "\<not> r2 \<noteq> 0" using True r2 by simp_all
      from "7.IH"(2) [OF a refl n(1) b refl refl n(2) c]
      have "trace s3 = trace s2 \<and> conn_hazard s3 = conn_hazard s2" by simp
      then show ?thesis using t1 t2 \<open>s' = s3\<close> by simp
    qed
  qed
qed auto

lemma hazard_retry_state:
  "hazard_retry fuel s st pg force = Return 0 (s', st') \<Longrightarrow> st' = st"
proof (induction fuel arbitrary: s)
  case 0
  then show ?case by simp
next
  case (Suc fuel)
  then show ?case by (auto simp: Let_def split: if_splits)
qed

lemma rec_excl_page_locked:
  "LF_ISSET flags WT_REC_SINGLE = 0 \<Longrightarrow>
   rec_excl_page fuel s st pg p flags = Return 0 (s1, st1) \<Longrightarrow> st1 = WT_REF_LOCKED"
  by (auto simp: rec_excl_page_def hazard_exclusive_def split: if_splits exec.splits
           dest: hazard_retry_state)

lemma rec_excl_fields:
  "rec_excl fuel s p lst flags = Return ret (s', p', lst') \<Longrightarrow>
     p_addr p' = p_addr p \<and> p_parent p' = p_parent p \<and> p_type p' = p_type p
     \<and> p_flags p' = p_flags p \<and> p_read_gen p' = p_read_gen p \<and> p_modify p' = p_modify p"
  by (cases p) (auto split: exec.splits)

lemma locked_tree_iff:
  "locked_tree p = (p_addr p \<noteq> 0 \<and> (if is_internal (p_type p) then locked_refs (p_entries p) else True))"
  by (cases p) simp

lemma rec_excl_locked:
  "LF_ISSET flags WT_REC_SINGLE = 0 \<Longrightarrow> addrs_ok_refs (p_entries p) \<Longrightarrow>
   rec_excl fuel s p lst flags = Return 0 (s', p', lst') \<Longrightarrow> locked_refs (p_entries p')"
  "LF_ISSET flags WT_REC_SINGLE = 0 \<Longrightarrow> addrs_ok_refs rs \<Longrightarrow>
   rec_excl_refs fuel s rs lst flags = Return 0 (s', rs', lst') \<Longrightarrow> locked_refs rs'"
proof (induction fuel s p lst flags and fuel s rs lst flags
       arbitrary: s' p' lst' and s' rs' lst' rule: rec_excl_rec_excl_refs.induct)
  case (1 fuel s a par t f g m es last_page flags)
  then show ?case by (auto split: exec.splits)
next
  case (2 fuel s last_page flags)
  then show ?case by simp
next
  case (3 fuel s pg ad rs last_page flags)
  from "3.prems" obtain s1 rs1 l1 where
    a: "rec_excl_refs fuel s rs last_page flags = Return 0 (s1, rs1, l1)"
    and r: "rs' = Ref WT_REF_DISK pg ad # rs1"
    by (auto split: exec.splits)
  have "addrs_ok_refs rs" using "3.prems"(2) by (cases pg) simp_all
  from "3.IH" [OF "3.prems"(1) this a] have "locked_refs rs1" .
  then show ?case using r by (cases pg) simp_all
next
  case (4 fuel s pg ad rs last_page flags)
  then show ?case by (simp add: WT_ERROR_def)
next
  case (5 fuel s pg ad rs last_page flags)
  then show ?case by (simp add: WT_ERROR_def)
next
  case (6 fuel s ad rs last_page flags)
  then show ?case by simp
next
  case (7 fuel s p ad rs last_page flags)
  note ns = "7.prems"(1)
  have ok: "addrs_ok p" "addrs_ok_refs rs" using "7.prems"(2) by simp_all
  from "7.prems"(3) obtain r1 s1 st1 where
    a: "rec_excl_page fuel s WT_REF_MEM (p_addr p) p flags = Return r1 (s1, st1)"
    by (auto split: exec.splits)
  have r1: "r1 = 0" using "7.prems"(3) a by (auto split: if_splits)
  have st1: "st1 = WT_REF_LOCKED" using rec_excl_page_locked [OF ns] a r1 by simp
  from "7.prems"(3) a r1 obtain r2 s2 p2 l2 where
    b: "(if is_internal (p_type p) then rec_excl fuel s1 p (p_addr p) flags
         else Return 0 (s1, p, p_addr p)) = Return r2 (s2, p2, l2)"
    by (auto split: exec.splits)
  have r2: "r2 = 0" using "7.prems"(3) a r1 b by (auto split: if_splits)
  from "7.prems"(3) a r1 b r2 obtain s3 rs3 l3 where
    c: "rec_excl_refs fuel s2 rs l2 flags = Return 0 (s3, rs3, l3)"
    and r: "rs' = Ref st1 (Some p2) ad # rs3"
    by (auto split: exec.splits)
  have n: "\<not> r1 \<noteq> 0" "\<not> r2 \<noteq> 0" using r1 r2 by simp_all
  have lp: "locked_tree p2"
  proof (cases "is_internal (p_type p)")
    case i: True
    then have e: "rec_excl fuel s1 p (p_addr p) flags = Return 0 (s2, p2, l2)" using b r2 by simp
    have "addrs_ok_refs (p_entries p)" using ok(1) by (cases p) simp
    from "7.IH"(1) [OF a refl n(1) i ns this e] have "locked_refs (p_entries p2)" .
    moreover have "p_addr p2 \<noteq> 0" "p_type p2 = p_type p"
      using rec_excl_fields [OF e] ok(1) by (cases p, simp)+
    ultimately show ?thesis using i by (simp add: locked_tree_iff)
  next
    case False
    then have "p2 = p" using b by simp
    then show ?thesis using False ok(1) by (cases p) (simp add: locked_tree_iff)
  qed
  from "7.IH"(2) [OF a refl n(1) b refl refl n(2) ns ok(2) c] have "locked_refs rs3" .
  then show ?case using r st1 lp by simp
qed

lemma excl_clear_locked:
  "lst = 0 \<Longrightarrow> locked_tree p \<Longrightarrow> \<exists>p'. excl_clear_page p lst = Return 0 p' \<and> mem_tree p'"
  "lst = 0 \<Longrightarrow> locked_refs rs \<Longrightarrow> \<exists>rs'. excl_clear_refs rs lst = Return 0 rs' \<and> mem_refs rs'"
proof (induction p lst and rs lst rule: excl_clear_page_excl_clear_refs.induct)
  case (1 a par t f g m es last_page)
  then show ?case by (auto split: exec.splits)
next
  case (2 last_page)
  then show ?case by simp
next
  case (3 pg ad rs last_page)
  then show ?case by (cases pg) (auto split: exec.splits)
next
  case (4 ad rs last_page)
  then show ?case by simp
next
  case (5 p ad rs last_page)
  from "5.IH"(1) [OF "5.prems"(1)] "5.prems"(2) obtain p1 where
    a: "excl_clear_page p last_page = Return 0 p1" "mem_tree p1" by auto
  have n: "\<not> (0::int) \<noteq> 0" by simp
  from "5.IH"(2) [OF a(1) n "5.prems"(1)] "5.prems"(2) obtain rs1 where
    b: "excl_clear_refs rs last_page = Return 0 rs1" "mem_refs rs1" by auto
  show ?case using a b by simp
next
  case (6 pg ad rs last_page)
  then show ?case by (cases pg) simp_all
next
  case (7 pg ad rs last_page)
  then show ?case by (cases pg) simp_all
qed

subsection \<open>What a review changes\<close>

lemma excl_clear_page_fields:
  "excl_clear_page p lst = Return ret p' \<Longrightarrow>
     p_addr p' = p_addr p \<and> p_parent p' = p_parent p \<and> p_type p' = p_type p
     \<and> p_flags p' = p_flags p \<and> p_read_gen p' = p_read_gen p \<and> p_modify p' = p_modify p"
  by (cases p) (auto split: exec.splits if_splits)

lemma rec_review_trace:
  assumes "rec_review fuel s r p flags = Return ret (s1, r1, p1)"
  shows "trace s1 = trace s \<and> conn_hazard s1 = conn_hazard s"
proof -
  from assms obtain ra sa ra1 la where
    a: "(if LF_ISSET flags WT_REC_SINGLE = 0
            then
              (case hazard_exclusive fuel s (state r) (page r) (LF_ISSET flags WT_REC_WAIT \<noteq> 0) of
                 Fault \<Rightarrow> Fault
               | Spin \<Rightarrow> Spin
               | Return ret (s1, st1) \<Rightarrow> Return ret (s1, r\<lparr>state := st1\<rparr>, p_addr p))
            else Return 0 (s, r, 0)) = Return ra (sa, ra1, la)"
    by (auto simp: rec_review_def split: exec.splits)
  have ta: "trace sa = trace s \<and> conn_hazard sa = conn_hazard s"
    using a by (auto split: if_splits exec.splits dest: hazard_exclusive_trace)
  show ?thesis
  proof (cases "ra = 0")
    case False
    then show ?thesis using assms a ta by (simp add: rec_review_def)
  next
    case True
    from assms a True obtain rb sb pb lb where
      b: "(if is_internal (p_type p) then rec_excl fuel sa p la flags
                   else Return 0 (sa, p, la)) = Return rb (sb, pb, lb)"
      by (auto simp: rec_review_def split: exec.splits)
    have tb: "trace sb = trace sa \<and> conn_hazard sb = conn_hazard sa"
      using b by (auto split: if_splits dest: rec_excl_trace(1))
    have "s1 = sb" using assms a True b
      by (auto simp: rec_review_def split: exec.splits if_splits)
    then show ?thesis using ta tb by simp
  qed
qed

lemma rec_review_fields:
  assumes "rec_review fuel s r p flags = Return ret (s1, r1, p1)"
  shows "p_addr p1 = p_addr p \<and> p_parent p1 = p_parent p \<and> p_type p1 = p_type p
     \<and> p_flags p1 = p_flags p \<and> p_read_gen p1 = p_read_gen p \<and> p_modify p1 = p_modify p
     \<and> page r1 = page r \<and> addr r1 = addr r"
  using assms
  by (auto simp: rec_review_def rec_excl_clear_def
      split: exec.splits if_splits dest!: rec_excl_fields excl_clear_page_fields)

lemma hazard_exclusive_state:
  "hazard_exclusive fuel s st pg force = Return 0 (s', st') \<Longrightarrow> st' = WT_REF_LOCKED"
  by (auto simp: hazard_exclusive_def split: if_splits dest: hazard_retry_state)

lemma rec_review_locked:
  assumes "LF_ISSET flags WT_REC_SINGLE = 0" and "addrs_ok p"
    and "rec_review fuel s r p flags = Return 0 (s1, r1, p1)"
  shows "state r1 = WT_REF_LOCKED \<and> locked_tree p1"
proof -
  from assms(1,3) obtain sa sta where
    a: "hazard_exclusive fuel s (state r) (page r) (LF_ISSET flags WT_REC_WAIT \<noteq> 0) = Return 0 (sa, sta)"
    by (auto simp: rec_review_def split: exec.splits if_splits)
  have sta: "sta = WT_REF_LOCKED" using hazard_exclusive_state [OF a] .
  from assms(1,3) a obtain sb pb lb where
    b: "(if is_internal (p_type p) then rec_excl fuel sa p (p_addr p) flags
                   else Return 0 (sa, p, p_addr p)) = Return 0 (sb, pb, lb)"
    and r: "r1 = r\<lparr>state := sta\<rparr>" "p1 = pb"
    by (auto simp: rec_review_def split: exec.splits if_splits)
  have "locked_tree pb"
  proof (cases "is_internal (p_type p)")
    case True
    then have e: "rec_excl fuel sa p (p_addr p) flags = Return 0 (sb, pb, lb)" using b by simp
    have "addrs_ok_refs (p_entries p)" using assms(2) by (cases p) simp
    from rec_excl_locked(1) [OF assms(1) this e] have "locked_refs (p_entries pb)" .
    moreover have "p_addr pb \<noteq> 0" "p_type pb = p_type p"
      using rec_excl_fields [OF e] assms(2) by (cases p, simp)+
    ultimately show ?thesis using True by (simp add: locked_tree_iff)
  next
    case False
    then show ?thesis using b assms(2) by (cases p) (auto simp: locked_tree_iff)
  qed
  then show ?thesis using r sta by simp
qed

lemma rec_excl_clear_locked:
  assumes "locked_tree p"
  shows "\<exists>p'. rec_excl_clear r p 0 = Return 0 (r\<lparr>state := WT_REF_MEM\<rparr>, p') \<and> mem_tree p'
          \<and> p_addr p' = p_addr p \<and> p_flags p' = p_flags p \<and> p_modify p' = p_modify p"
proof -
  from excl_clear_locked(1) [OF refl assms] obtain p' where
    a: "excl_clear_page p 0 = Return 0 p'" "mem_tree p'" by auto
  then show ?thesis using excl_clear_page_fields [OF a(1)] by (simp add: rec_excl_clear_def)
qed

lemma locked_tree_reconciled: "locked_tree (reconciled p f md) = locked_tree p"
  by (cases p) (simp add: reconciled_def)

lemma F_ISSET_reconciled: "F_ISSET (reconciled p f md) msk = f AND msk"
  by (simp add: F_ISSET_def reconciled_def)

lemma F_ISSET_or_zero:
  "(F_ISSET p (a OR b) = 0) = (F_ISSET p a = 0 \<and> F_ISSET p b = 0)"
  by (simp add: F_ISSET_def bit.conj_disj_distrib or_eq_0_iff)

lemma mask_zero_split_merge:
  "F_ISSET p WT_PAGE_REC_MASK = 0 \<Longrightarrow> F_ISSET p WT_PAGE_REC_SPLIT_MERGE = 0"
  by (simp add: WT_PAGE_REC_MASK_def F_ISSET_or_zero)

lemma mask_eq_split_merge:
  "F_ISSET p WT_PAGE_REC_MASK = v \<Longrightarrow> v AND WT_PAGE_REC_SPLIT_MERGE = 0 \<Longrightarrow>
   F_ISSET p WT_PAGE_REC_SPLIT_MERGE = 0"
proof -
  assume a: "F_ISSET p WT_PAGE_REC_MASK = v" and b: "v AND WT_PAGE_REC_SPLIT_MERGE = 0"
  have "WT_PAGE_REC_MASK AND WT_PAGE_REC_SPLIT_MERGE = WT_PAGE_REC_SPLIT_MERGE"
    by (simp add: WT_PAGE_REC_MASK_def WT_PAGE_REC_EMPTY_def WT_PAGE_REC_REPLACE_def
                  WT_PAGE_REC_SPLIT_def WT_PAGE_REC_SPLIT_MERGE_def)
  then have "F_ISSET p WT_PAGE_REC_SPLIT_MERGE = F_ISSET p WT_PAGE_REC_MASK AND WT_PAGE_REC_SPLIT_MERGE"
    by (simp add: F_ISSET_def and.assoc)
  then show ?thesis using a b by simp
qed

text \<open>Two reviews, evaluated.\<close>

lemma review_int_dirty:
  "rec_review (Suc 0) session0 slot_locked int_dirty 0 = Return 0 (session0, slot_locked, int_dirty_locked)"
  by code_simp

lemma review_leaf_clean:
  "rec_review (Suc 0) session0 slot_locked leaf_clean 0 = Return 0 (session0, slot_locked, leaf_clean)"
  by code_simp

subsection \<open>Eviction of a merge-split page\<close>

text \<open>
  C5.  When the page has \<^verbatim>\<open>WT_PAGE_REC_SPLIT_MERGE\<close>, \<^verbatim>\<open>__wt_rec_evict\<close> returns 0 at
  once: the session (hazard copy, root fields, statistics, log of external calls) is
  the one of entry, so nothing was reviewed, written or discarded; the slot keeps its
  \<^verbatim>\<open>page\<close> and \<^verbatim>\<open>addr\<close> and has state \<open>MEM\<close>; the page differs only in its read
  generation, which is the value of the cache clock.
\<close>

theorem evict_split_merge:
  assumes "F_ISSET p WT_PAGE_REC_SPLIT_MERGE \<noteq> 0"
  shows "wt_rec_evict fuel env s r p flags =
     Return 0 (s, r\<lparr>state := WT_REF_MEM\<rparr>,
       Page (p_addr p) (p_parent p) (p_type p) (p_flags p) (wt_cache_read_gen env)
            (p_modify p) (p_entries p))"
  using assms by (simp add: wt_rec_evict_def)

theorem evict_split_merge_witness:
  "wt_rec_evict 0 env_ok session_hz slot_locked int_split_merge 0 =
     Return 0 (session_hz, slot_locked\<lparr>state := WT_REF_MEM\<rparr>,
               Page 100 50 WT_PAGE_ROW_INT WT_PAGE_REC_SPLIT_MERGE 7 None [])"
proof -
  have h: "F_ISSET int_split_merge WT_PAGE_REC_SPLIT_MERGE \<noteq> 0" by code_simp
  show ?thesis using evict_split_merge [OF h, of 0 env_ok session_hz slot_locked 0]
    by (simp add: int_split_merge_def env_ok_def)
qed

subsection \<open>Eviction of a clean page\<close>

lemma review_leaf_clean_modify:
  "rec_review (Suc 0) session0 slot_locked leaf_clean_modify 0
     = Return 0 (session0, slot_locked, leaf_clean_modify)"
  by code_simp

text \<open>
  C7, as stated, fails when the wrap-up fails.  The clean leaf at address 100 has a
  \<^verbatim>\<open>modify\<close> structure and is not the root; its review succeeds;
  \<^verbatim>\<open>__wt_rec_track_wrapup\<close> returns 5.  Then \<^verbatim>\<open>__wt_rec_evict\<close> returns 5 and the only
  external call is the wrap-up: the page is never passed to \<^verbatim>\<open>__wt_page_out\<close>, and the
  slot is left with \<^verbatim>\<open>page = NULL\<close> in state \<open>MEM\<close>, not \<open>DISK\<close>.
\<close>

theorem evict_clean_wrapup_counterexample:
  "wt_rec_evict (Suc 0) env_wrapfail session0 slot_locked leaf_clean_modify 0 =
     Return 5 (session0\<lparr>cache_evict_unmodified := 1, trace := [EV_track_wrapup 100]\<rparr>,
               \<lparr>state = WT_REF_MEM, page = 0, addr = ADDR_OFF_PAGE (WT_ADDR 4096 32)\<rparr>,
               leaf_clean_modify)"
  by code_simp

text \<open>
  C7, amended.  A page that is not the root, is not modified and has no reconciliation
  flag is evicted, once its review has succeeded, without a call of the writer, and
  \<^verbatim>\<open>__wt_rec_track_wrapup\<close> is called first if and only if the page has a \<^verbatim>\<open>modify\<close>
  structure.  When the page has no \<^verbatim>\<open>modify\<close> structure or the wrap-up succeeds,
  \<^verbatim>\<open>__wt_rec_evict\<close> returns 0, the slot has \<^verbatim>\<open>page = NULL\<close> and state \<open>DISK\<close>, and the
  page is passed to \<^verbatim>\<open>__wt_page_out\<close> once.  When the wrap-up fails,
  \<^verbatim>\<open>__wt_rec_evict\<close> returns the error of the wrap-up, \<^verbatim>\<open>__wt_page_out\<close> is not called,
  and the slot has \<^verbatim>\<open>page = NULL\<close>; its state is \<open>MEM\<close>, unless \<^verbatim>\<open>WT_REC_SINGLE\<close> is
  set, in which case it stays \<open>DISK\<close>.
\<close>

theorem evict_clean:
  assumes m: "F_ISSET p WT_PAGE_REC_MASK = 0"
    and clean: "\<not> wt_page_is_modified p"
    and nr: "\<not> WT_PAGE_IS_ROOT p"
    and rev: "rec_review fuel s r p flags = Return 0 (s1, r1, p1)"
  shows "(p_modify p = None \<or> wt_rec_track_wrapup env p1 = 0 \<longrightarrow>
          (\<exists>s'. wt_rec_evict fuel env s r p flags =
                   Return 0 (s', r1\<lparr>page := 0, state := WT_REF_DISK\<rparr>, p1)
             \<and> trace s' = trace s
                  @ (if p_modify p \<noteq> None then [EV_track_wrapup (p_addr p)] else [])
                  @ [EV_page_out (p_addr p)]))
     \<and> (p_modify p \<noteq> None \<and> wt_rec_track_wrapup env p1 \<noteq> 0 \<and> addrs_ok p \<longrightarrow>
          (\<exists>s' p'. wt_rec_evict fuel env s r p flags =
                   Return (wt_rec_track_wrapup env p1)
                     (s', r1\<lparr>page := 0, state := (if LF_ISSET flags WT_REC_SINGLE = 0
                                                      then WT_REF_MEM else WT_REF_DISK)\<rparr>, p')
             \<and> trace s' = trace s @ [EV_track_wrapup (p_addr p)]))"
proof (intro conjI impI)
  note fl = rec_review_fields [OF rev]
  note tr = rec_review_trace [OF rev]
  have sm: "F_ISSET p WT_PAGE_REC_SPLIT_MERGE = 0" using m by (rule mask_zero_split_merge)
  have c1: "\<not> wt_page_is_modified p1" using clean fl by (simp add: wt_page_is_modified_def)
  have m1: "F_ISSET p1 WT_PAGE_REC_MASK = 0" using m fl by (simp add: F_ISSET_def)
  have nr1: "\<not> WT_PAGE_IS_ROOT p1" using nr fl by (simp add: WT_PAGE_IS_ROOT_def)
  {
    assume wrap: "p_modify p = None \<or> wt_rec_track_wrapup env p1 = 0"
    show "\<exists>s'. wt_rec_evict fuel env s r p flags =
                   Return 0 (s', r1\<lparr>page := 0, state := WT_REF_DISK\<rparr>, p1)
             \<and> trace s' = trace s
                  @ (if p_modify p \<noteq> None then [EV_track_wrapup (p_addr p)] else [])
                  @ [EV_page_out (p_addr p)]"
      using sm rev c1 m1 nr1 wrap fl tr
      by (auto simp: wt_rec_evict_def rec_page_clean_update_def rec_discard_page_def log_event_def
                   Let_def)
  }
  {
    assume fail: "p_modify p \<noteq> None \<and> wt_rec_track_wrapup env p1 \<noteq> 0 \<and> addrs_ok p"
    show "\<exists>s' p'. wt_rec_evict fuel env s r p flags =
                   Return (wt_rec_track_wrapup env p1)
                     (s', r1\<lparr>page := 0, state := (if LF_ISSET flags WT_REC_SINGLE = 0
                                                      then WT_REF_MEM else WT_REF_DISK)\<rparr>, p')
             \<and> trace s' = trace s @ [EV_track_wrapup (p_addr p)]"
    proof (cases "LF_ISSET flags WT_REC_SINGLE = 0")
      case True
      have "locked_tree p1" using rec_review_locked [OF True _ rev] fail by simp
      from rec_excl_clear_locked [OF this, of "r1\<lparr>page := 0, state := WT_REF_DISK\<rparr>"]
      obtain p' where
        c: "rec_excl_clear (r1\<lparr>page := 0, state := WT_REF_DISK\<rparr>) p1 0
              = Return 0 (r1\<lparr>page := 0, state := WT_REF_MEM\<rparr>, p')" by auto
      show ?thesis using sm rev c1 m1 nr1 fail fl tr True c
        by (simp add: wt_rec_evict_def rec_page_clean_update_def rec_discard_page_def log_event_def
                   evict_err_def Let_def)
    next
      case False
      show ?thesis using sm rev c1 m1 nr1 fail fl tr False
        by (simp add: wt_rec_evict_def rec_page_clean_update_def rec_discard_page_def log_event_def
                   evict_err_def Let_def)
    qed
  }
qed

theorem evict_clean_witness:
  "(\<exists>s'. wt_rec_evict (Suc 0) env_ok session0 slot_locked leaf_clean_modify 0 =
           Return 0 (s', slot_locked\<lparr>page := 0, state := WT_REF_DISK\<rparr>, leaf_clean_modify)
      \<and> trace s' = [EV_track_wrapup 100, EV_page_out 100])
   \<and> (\<exists>s'. wt_rec_evict (Suc 0) env_ok session0 slot_locked leaf_clean 0 =
           Return 0 (s', slot_locked\<lparr>page := 0, state := WT_REF_DISK\<rparr>, leaf_clean)
      \<and> trace s' = [EV_page_out 100])
   \<and> (\<exists>s' p'. wt_rec_evict (Suc 0) env_wrapfail session0 slot_locked leaf_clean_modify 0 =
           Return 5 (s', slot_locked\<lparr>page := 0, state := WT_REF_MEM\<rparr>, p')
      \<and> trace s' = [EV_track_wrapup 100])"
proof -
  have h: "F_ISSET leaf_clean_modify WT_PAGE_REC_MASK = 0" "\<not> wt_page_is_modified leaf_clean_modify"
    "\<not> WT_PAGE_IS_ROOT leaf_clean_modify" "addrs_ok leaf_clean_modify"
    "F_ISSET leaf_clean WT_PAGE_REC_MASK = 0" "\<not> wt_page_is_modified leaf_clean"
    "\<not> WT_PAGE_IS_ROOT leaf_clean" "LF_ISSET 0 WT_REC_SINGLE = 0"
    by code_simp+
  have v: "trace session0 = []" "p_addr leaf_clean_modify = 100" "p_modify leaf_clean_modify \<noteq> None"
    "p_addr leaf_clean = 100" "p_modify leaf_clean = None"
    "wt_rec_track_wrapup env_ok leaf_clean_modify = 0"
    "wt_rec_track_wrapup env_wrapfail leaf_clean_modify = 5"
    by (simp_all add: session0_def leaf_clean_modify_def leaf_clean_def env_ok_def env_wrapfail_def)
  have a: "\<exists>s'. wt_rec_evict (Suc 0) env_ok session0 slot_locked leaf_clean_modify 0 =
           Return 0 (s', slot_locked\<lparr>page := 0, state := WT_REF_DISK\<rparr>, leaf_clean_modify)
      \<and> trace s' = [EV_track_wrapup 100, EV_page_out 100]"
    using evict_clean [OF h(1) h(2) h(3) review_leaf_clean_modify, of env_ok]
    by (simp add: v)
  have b: "\<exists>s'. wt_rec_evict (Suc 0) env_ok session0 slot_locked leaf_clean 0 =
           Return 0 (s', slot_locked\<lparr>page := 0, state := WT_REF_DISK\<rparr>, leaf_clean)
      \<and> trace s' = [EV_page_out 100]"
    using evict_clean [OF h(5) h(6) h(7) review_leaf_clean, of env_ok]
    by (simp add: v)
  have c: "\<exists>s' p'. wt_rec_evict (Suc 0) env_wrapfail session0 slot_locked leaf_clean_modify 0 =
           Return 5 (s', slot_locked\<lparr>page := 0, state := WT_REF_MEM\<rparr>, p')
      \<and> trace s' = [EV_track_wrapup 100]"
    using evict_clean [OF h(1) h(2) h(3) review_leaf_clean_modify, of env_wrapfail] h(4) h(8)
    by (simp add: v)
  show ?thesis using a b c by blast
qed

subsection \<open>Eviction of a dirty page that is not the root\<close>

text \<open>The unwind after a review puts back the slot states that the review found.\<close>

lemma excl_clear_page_unfold:
  "excl_clear_page p lst =
     (if p_addr p = lst then Return 1 p
      else if is_internal (p_type p) then
        (case excl_clear_refs (p_entries p) lst of
           Fault \<Rightarrow> Fault
         | Spin \<Rightarrow> Spin
         | Return ret es \<Rightarrow>
             Return ret (Page (p_addr p) (p_parent p) (p_type p) (p_flags p) (p_read_gen p)
                              (p_modify p) es))
      else Return 0 p)"
  by (cases p) (simp split: exec.splits)

lemma page_eqI:
  "p_addr q = p_addr p \<Longrightarrow> p_parent q = p_parent p \<Longrightarrow> p_type q = p_type p \<Longrightarrow>
   p_flags q = p_flags p \<Longrightarrow> p_read_gen q = p_read_gen p \<Longrightarrow> p_modify q = p_modify p \<Longrightarrow>
   p_entries q = p_entries p \<Longrightarrow> q = p"
  by (cases p, cases q) simp

lemma rec_excl_unwind:
  "LF_ISSET flags WT_REC_SINGLE = 0 \<Longrightarrow> addrs_ok_refs (p_entries p) \<Longrightarrow>
   rec_excl fuel s p lst flags = Return 0 (s', p', lst') \<Longrightarrow>
   excl_clear_refs (p_entries p') 0 = Return 0 (p_entries p)"
  "LF_ISSET flags WT_REC_SINGLE = 0 \<Longrightarrow> addrs_ok_refs rs \<Longrightarrow>
   rec_excl_refs fuel s rs lst flags = Return 0 (s', rs', lst') \<Longrightarrow>
   excl_clear_refs rs' 0 = Return 0 rs"
proof (induction fuel s p lst flags and fuel s rs lst flags
       arbitrary: s' p' lst' and s' rs' lst' rule: rec_excl_rec_excl_refs.induct)
  case (1 fuel s a par t f g m es last_page flags)
  then show ?case by (auto split: exec.splits)
next
  case (2 fuel s last_page flags)
  then show ?case by simp
next
  case (3 fuel s pg ad rs last_page flags)
  from "3.prems" obtain s1 rs1 l1 where
    a: "rec_excl_refs fuel s rs last_page flags = Return 0 (s1, rs1, l1)"
    and r: "rs' = Ref WT_REF_DISK pg ad # rs1"
    by (auto split: exec.splits)
  have "addrs_ok_refs rs" using "3.prems"(2) by (cases pg) simp_all
  from "3.IH" [OF "3.prems"(1) this a] have "excl_clear_refs rs1 0 = Return 0 rs" .
  then show ?case using r by simp
next
  case (4 fuel s pg ad rs last_page flags)
  then show ?case by (simp add: WT_ERROR_def)
next
  case (5 fuel s pg ad rs last_page flags)
  then show ?case by (simp add: WT_ERROR_def)
next
  case (6 fuel s ad rs last_page flags)
  then show ?case by simp
next
  case (7 fuel s p ad rs last_page flags)
  note ns = "7.prems"(1)
  have ok: "addrs_ok p" "addrs_ok_refs rs" using "7.prems"(2) by simp_all
  have a0: "p_addr p \<noteq> 0" "addrs_ok_refs (p_entries p)" using ok(1) by (cases p, simp)+
  from "7.prems"(3) obtain r1 s1 st1 where
    a: "rec_excl_page fuel s WT_REF_MEM (p_addr p) p flags = Return r1 (s1, st1)"
    by (auto split: exec.splits)
  have r1: "r1 = 0" using "7.prems"(3) a by (auto split: if_splits)
  have st1: "st1 = WT_REF_LOCKED" using rec_excl_page_locked [OF ns] a r1 by simp
  from "7.prems"(3) a r1 obtain r2 s2 p2 l2 where
    b: "(if is_internal (p_type p) then rec_excl fuel s1 p (p_addr p) flags
         else Return 0 (s1, p, p_addr p)) = Return r2 (s2, p2, l2)"
    by (auto split: exec.splits)
  have r2: "r2 = 0" using "7.prems"(3) a r1 b by (auto split: if_splits)
  from "7.prems"(3) a r1 b r2 obtain s3 rs3 l3 where
    c: "rec_excl_refs fuel s2 rs l2 flags = Return 0 (s3, rs3, l3)"
    and r: "rs' = Ref st1 (Some p2) ad # rs3"
    by (auto split: exec.splits)
  have n: "\<not> r1 \<noteq> 0" "\<not> r2 \<noteq> 0" using r1 r2 by simp_all
  have cp: "excl_clear_page p2 0 = Return 0 p"
  proof (cases "is_internal (p_type p)")
    case i: True
    then have e: "rec_excl fuel s1 p (p_addr p) flags = Return 0 (s2, p2, l2)" using b r2 by simp
    from "7.IH"(1) [OF a refl n(1) i ns a0(2) e]
    have u: "excl_clear_refs (p_entries p2) 0 = Return 0 (p_entries p)" .
    note fl = rec_excl_fields [OF e]
    have "Page (p_addr p2) (p_parent p2) (p_type p2) (p_flags p2) (p_read_gen p2) (p_modify p2)
            (p_entries p) = p"
      using fl by (intro page_eqI) simp_all
    then show ?thesis using u fl i a0(1) by (simp add: excl_clear_page_unfold)
  next
    case False
    then have "p2 = p" using b by simp
    then show ?thesis using False a0(1) by (simp add: excl_clear_page_unfold)
  qed
  from "7.IH"(2) [OF a refl n(1) b refl refl n(2) ns ok(2) c]
  have "excl_clear_refs rs3 0 = Return 0 rs" .
  then show ?case using r st1 cp by simp
qed

lemma rec_review_unwind:
  assumes ns: "LF_ISSET flags WT_REC_SINGLE = 0" and ok: "addrs_ok p"
    and rev: "rec_review fuel s r p flags = Return 0 (s1, r1, p1)"
  shows "rec_excl_clear r1 (reconciled p1 f md) 0
           = Return 0 (r\<lparr>state := WT_REF_MEM\<rparr>, reconciled p f md)"
proof -
  from ns rev obtain sa sta where
    a: "hazard_exclusive fuel s (state r) (page r) (LF_ISSET flags WT_REC_WAIT \<noteq> 0) = Return 0 (sa, sta)"
    by (auto simp: rec_review_def split: exec.splits if_splits)
  from ns rev a obtain sb pb lb where
    b: "(if is_internal (p_type p) then rec_excl fuel sa p (p_addr p) flags
                   else Return 0 (sa, p, p_addr p)) = Return 0 (sb, pb, lb)"
    and r: "r1 = r\<lparr>state := sta\<rparr>" "p1 = pb"
    by (auto simp: rec_review_def split: exec.splits if_splits)
  have a0: "p_addr p \<noteq> 0" "addrs_ok_refs (p_entries p)" using ok by (cases p, simp)+
  note fl = rec_review_fields [OF rev]
  have "excl_clear_page (reconciled p1 f md) 0 = Return 0 (reconciled p f md)"
  proof (cases "is_internal (p_type p)")
    case True
    then have e: "rec_excl fuel sa p (p_addr p) flags = Return 0 (sb, pb, lb)" using b by simp
    from rec_excl_unwind(1) [OF ns a0(2) e] r(2)
    have "excl_clear_refs (p_entries p1) 0 = Return 0 (p_entries p)" by simp
    then show ?thesis using True fl a0(1)
      by (simp add: excl_clear_page_unfold reconciled_def)
  next
    case False
    then have "p1 = p" using b r(2) by simp
    then show ?thesis using False a0(1) by (simp add: excl_clear_page_unfold reconciled_def)
  qed
  then show ?thesis using r(1) by (simp add: rec_excl_clear_def)
qed

text \<open>
  C4.  When the writer reports the dirty page as empty, \<^verbatim>\<open>__wt_rec_evict\<close> returns 0
  and the only external call is the one of the writer: the page is not handed to
  \<^verbatim>\<open>__wt_page_out\<close>.  Unless \<^verbatim>\<open>WT_REC_SINGLE\<close> is set, the review had put the slot of
  the page and every slot it reached below the page in state \<open>LOCKED\<close>, and on return
  the slot of the page is \<open>MEM\<close>, with its \<^verbatim>\<open>page\<close> and \<^verbatim>\<open>addr\<close> as before the call,
  and the page is the page before the call with the flags and the \<^verbatim>\<open>modify\<close>
  structure the writer gave it: every slot below it has the state, the page and the
  address it had before the call, so that every slot the review locked is \<open>MEM\<close>
  again.  With \<^verbatim>\<open>WT_REC_SINGLE\<close> nothing is undone: the slot and the page are as the
  review left them.
\<close>

theorem evict_empty:
  assumes sm: "F_ISSET p WT_PAGE_REC_SPLIT_MERGE = 0"
    and ok: "addrs_ok p"
    and rev: "rec_review fuel s r p flags = Return 0 (s1, r1, p1)"
    and dirty: "wt_page_is_modified p"
    and wr: "wt_rec_write env p1 = (0, f, md)"
    and f: "f AND WT_PAGE_REC_MASK = WT_PAGE_REC_EMPTY"
    and nr: "\<not> WT_PAGE_IS_ROOT p"
  shows "\<exists>s'. wt_rec_evict fuel env s r p flags =
           Return 0 (s', if LF_ISSET flags WT_REC_SINGLE = 0 then r\<lparr>state := WT_REF_MEM\<rparr> else r1,
                     if LF_ISSET flags WT_REC_SINGLE = 0 then reconciled p f md
                     else reconciled p1 f md)
      \<and> trace s' = trace s @ [EV_rec_write (p_addr p)]
      \<and> (LF_ISSET flags WT_REC_SINGLE = 0 \<longrightarrow>
            state r1 = WT_REF_LOCKED \<and> locked_tree p1 \<and> mem_tree (reconciled p f md))"
proof -
  note fl = rec_review_fields [OF rev]
  note tr = rec_review_trace [OF rev]
  have d1: "wt_page_is_modified p1" using dirty fl by (simp add: wt_page_is_modified_def)
  let ?p2 = "reconciled p1 f md"
  have m: "F_ISSET ?p2 WT_PAGE_REC_MASK = WT_PAGE_REC_EMPTY" using f by (simp add: F_ISSET_reconciled)
  have m0: "F_ISSET ?p2 WT_PAGE_REC_MASK \<noteq> 0" using m by (simp add: WT_PAGE_REC_EMPTY_def)
  have nr2: "\<not> WT_PAGE_IS_ROOT ?p2" using nr fl by (simp add: WT_PAGE_IS_ROOT_def reconciled_def)
  show ?thesis
  proof (cases "LF_ISSET flags WT_REC_SINGLE = 0")
    case True
    note lk = rec_review_locked [OF True ok rev]
    have l2: "locked_tree ?p2" using lk by (simp add: locked_tree_reconciled)
    note c = rec_review_unwind [OF True ok rev, of f md]
    from rec_excl_clear_locked [OF l2, of r1] c have mt: "mem_tree (reconciled p f md)" by auto
    show ?thesis using sm rev d1 wr m m0 nr2 True c fl tr lk mt
      by (simp add: wt_rec_evict_def rec_write_def rec_page_dirty_update_def log_event_def)
  next
    case False
    show ?thesis using sm rev d1 wr m m0 nr2 False fl tr
      by (simp add: wt_rec_evict_def rec_write_def rec_page_dirty_update_def log_event_def)
  qed
qed

theorem evict_empty_witness:
  "\<exists>s'. wt_rec_evict (Suc 0) env_empty session0 slot_locked int_dirty 0 =
      Return 0 (s', slot_locked\<lparr>state := WT_REF_MEM\<rparr>,
                Page 100 50 WT_PAGE_ROW_INT WT_PAGE_REC_EMPTY 0 (Some (Modify False (WT_ADDR 0 0) None))
                  [Ref WT_REF_MEM (Some leaf_clean_split) ADDR_NULL,
                   Ref WT_REF_DISK None (ADDR_ON_PAGE 64)])
      \<and> trace s' = [EV_rec_write 100]
      \<and> locked_tree int_dirty_locked"
proof -
  have h: "F_ISSET int_dirty WT_PAGE_REC_SPLIT_MERGE = 0" "addrs_ok int_dirty"
    "wt_page_is_modified int_dirty" "\<not> WT_PAGE_IS_ROOT int_dirty"
    "WT_PAGE_REC_EMPTY AND WT_PAGE_REC_MASK = WT_PAGE_REC_EMPTY"
    "LF_ISSET 0 WT_REC_SINGLE = 0"
    by code_simp+
  have w: "wt_rec_write env_empty int_dirty_locked = (0, WT_PAGE_REC_EMPTY, Some (Modify False (WT_ADDR 0 0) None))"
    by (simp add: env_empty_def)
  have v: "trace session0 = []" "p_addr int_dirty = 100"
    "reconciled int_dirty WT_PAGE_REC_EMPTY (Some (Modify False (WT_ADDR 0 0) None)) =
       Page 100 50 WT_PAGE_ROW_INT WT_PAGE_REC_EMPTY 0 (Some (Modify False (WT_ADDR 0 0) None))
                  [Ref WT_REF_MEM (Some leaf_clean_split) ADDR_NULL,
                   Ref WT_REF_DISK None (ADDR_ON_PAGE 64)]"
    by (simp_all add: session0_def int_dirty_def reconciled_def)
  show ?thesis
    using evict_empty [OF h(1) h(2) review_int_dirty h(3) w h(5) h(4)] h(6)
    by (auto simp: v)
qed

text \<open>A walk that succeeds has found a page in every slot that is not on disk.\<close>

lemma present_tree_iff:
  "present_tree p = (if is_internal (p_type p) then present_refs (p_entries p) else True)"
  by (cases p) simp

lemma rec_excl_present:
  "rec_excl fuel s p lst flags = Return 0 (s', p', lst') \<Longrightarrow> present_refs (p_entries p')"
  "rec_excl_refs fuel s rs lst flags = Return 0 (s', rs', lst') \<Longrightarrow> present_refs rs'"
proof (induction fuel s p lst flags and fuel s rs lst flags
       arbitrary: s' p' lst' and s' rs' lst' rule: rec_excl_rec_excl_refs.induct)
  case (1 fuel s a par t f g m es last_page flags)
  then show ?case by (auto split: exec.splits)
next
  case (2 fuel s last_page flags)
  then show ?case by simp
next
  case (3 fuel s pg ad rs last_page flags)
  from "3.prems" obtain s1 rs1 l1 where
    a: "rec_excl_refs fuel s rs last_page flags = Return 0 (s1, rs1, l1)"
    and r: "rs' = Ref WT_REF_DISK pg ad # rs1"
    by (auto split: exec.splits)
  from "3.IH" [OF a] have "present_refs rs1" .
  then show ?case using r by (cases pg) simp_all
next
  case (4 fuel s pg ad rs last_page flags)
  then show ?case by (simp add: WT_ERROR_def)
next
  case (5 fuel s pg ad rs last_page flags)
  then show ?case by (simp add: WT_ERROR_def)
next
  case (6 fuel s ad rs last_page flags)
  then show ?case by simp
next
  case (7 fuel s p ad rs last_page flags)
  from "7.prems" obtain r1 s1 st1 where
    a: "rec_excl_page fuel s WT_REF_MEM (p_addr p) p flags = Return r1 (s1, st1)"
    by (auto split: exec.splits)
  have r1: "r1 = 0" using "7.prems" a by (auto split: if_splits)
  from "7.prems" a r1 obtain r2 s2 p2 l2 where
    b: "(if is_internal (p_type p) then rec_excl fuel s1 p (p_addr p) flags
         else Return 0 (s1, p, p_addr p)) = Return r2 (s2, p2, l2)"
    by (auto split: exec.splits)
  have r2: "r2 = 0" using "7.prems" a r1 b by (auto split: if_splits)
  from "7.prems" a r1 b r2 obtain s3 rs3 l3 where
    c: "rec_excl_refs fuel s2 rs l2 flags = Return 0 (s3, rs3, l3)"
    and r: "rs' = Ref st1 (Some p2) ad # rs3"
    by (auto split: exec.splits)
  have n: "\<not> r1 \<noteq> 0" "\<not> r2 \<noteq> 0" using r1 r2 by simp_all
  have lp: "present_tree p2"
  proof (cases "is_internal (p_type p)")
    case i: True
    then have e: "rec_excl fuel s1 p (p_addr p) flags = Return 0 (s2, p2, l2)" using b r2 by simp
    from "7.IH"(1) [OF a refl n(1) i e] have "present_refs (p_entries p2)" .
    then show ?thesis by (simp add: present_tree_iff)
  next
    case False
    then have "p2 = p" using b by simp
    then show ?thesis using False by (simp add: present_tree_iff)
  qed
  from "7.IH"(2) [OF a refl n(1) b refl refl n(2) c] have "present_refs rs3" .
  then show ?case using r lp by simp
qed

lemma rec_review_present:
  assumes "rec_review fuel s r p flags = Return 0 (s1, r1, p1)"
  shows "present_tree p1"
proof (cases "is_internal (p_type p)")
  case True
  from assms True obtain sa la sb lb where
    "rec_excl fuel sa p la flags = Return 0 (sb, p1, lb)"
    by (auto simp: rec_review_def split: exec.splits if_splits)
  from rec_excl_present(1) [OF this] rec_review_fields [OF assms] True
  show ?thesis by (simp add: present_tree_iff)
next
  case False
  then show ?thesis using rec_review_fields [OF assms] by (simp add: present_tree_iff)
qed

lemma present_tree_reconciled: "present_tree (reconciled p f md) = present_tree p"
  by (cases p) (simp add: reconciled_def)

text \<open>A discard that meets a failing wrap-up stops there, with a non-zero result.\<close>

lemma rec_discard_fails:
  "present_tree p \<Longrightarrow> \<not> discard_ok env p \<Longrightarrow>
     \<exists>ret evs rest. ret \<noteq> 0 \<and> rest \<noteq> [] \<and> discard_log p = evs @ rest
        \<and> rec_discard env s p = Return ret (s\<lparr>trace := trace s @ evs\<rparr>)"
  "present_refs rs \<Longrightarrow> \<not> discard_ok_refs env rs \<Longrightarrow>
     \<exists>ret evs rest. ret \<noteq> 0 \<and> rest \<noteq> [] \<and> discard_log_refs rs = evs @ rest
        \<and> rec_discard_refs env s rs = Return ret (s\<lparr>trace := trace s @ evs\<rparr>)"
proof (induction env s p and env s rs rule: rec_discard_rec_discard_refs.induct)
  case (1 env s a par t f g m es)
  let ?p = "Page a par t f g m es"
  show ?case
  proof (cases "is_internal t \<and> \<not> discard_ok_refs env es")
    case True
    then have "present_refs es" using "1.prems"(1) by simp
    from "1.IH" [OF _ this] True obtain ret evs rest where
      a: "ret \<noteq> 0" "rest \<noteq> []" "discard_log_refs es = evs @ rest"
         "rec_discard_refs env s es = Return ret (s\<lparr>trace := trace s @ evs\<rparr>)"
      by blast
    have "discard_log ?p = evs @ (rest @ (if m \<noteq> None then [EV_track_wrapup a] else []) @ [EV_page_out a])"
      using True a(3) by simp
    moreover have "rec_discard env s ?p = Return ret (s\<lparr>trace := trace s @ evs\<rparr>)"
      using True a by simp
    ultimately show ?thesis using a(1) by blast
  next
    case False
    then have w: "m \<noteq> None" "wt_rec_track_wrapup env ?p \<noteq> 0"
      using "1.prems"(2) by (auto split: if_splits)
    let ?evs = "(if is_internal t then discard_log_refs es else []) @ [EV_track_wrapup a]"
    have "discard_log ?p = ?evs @ [EV_page_out a]" using w by simp
    moreover have "rec_discard env s ?p
        = Return (wt_rec_track_wrapup env ?p) (s\<lparr>trace := trace s @ ?evs\<rparr>)"
    proof (cases "is_internal t")
      case True
      then have "discard_ok_refs env es" using False by simp
      from rec_discard_log(2) [OF this, of s] True w show ?thesis
        by (simp add: rec_discard_page_def log_event_def Let_def)
    next
      case False
      then show ?thesis using w by (simp add: rec_discard_page_def log_event_def Let_def)
    qed
    ultimately show ?thesis using w(2) by blast
  qed
next
  case (2 env s)
  then show ?case by simp
next
  case (3 env s st pg ad rs)
  show ?case
  proof (cases "st = WT_REF_DISK")
    case True
    then have "present_refs rs" "\<not> discard_ok_refs env rs"
      using "3.prems" by (cases pg; simp)+
    from "3.IH"(3) [OF _ this] True obtain ret evs rest where
      a: "ret \<noteq> 0" "rest \<noteq> []" "discard_log_refs rs = evs @ rest"
         "rec_discard_refs env s rs = Return ret (s\<lparr>trace := trace s @ evs\<rparr>)"
      by blast
    then show ?thesis using True by (cases pg) auto
  next
    case False
    then obtain p where pg: "pg = Some p" using "3.prems"(1) by (cases pg) simp_all
    have pr: "present_tree p" "present_refs rs" using "3.prems"(1) False pg by simp_all
    show ?thesis
    proof (cases "discard_ok env p")
      case ok: True
      then have nr: "\<not> discard_ok_refs env rs" using "3.prems"(2) False pg by simp
      note d = rec_discard_log(1) [OF ok, of s]
      from "3.IH"(2) [OF False pg d _ pr(2) nr] obtain ret evs rest where
        a: "ret \<noteq> 0" "rest \<noteq> []" "discard_log_refs rs = evs @ rest"
           "rec_discard_refs env (s\<lparr>trace := trace s @ discard_log p\<rparr>) rs
              = Return ret (s\<lparr>trace := trace s @ discard_log p\<rparr>
                              \<lparr>trace := trace (s\<lparr>trace := trace s @ discard_log p\<rparr>) @ evs\<rparr>)"
        by auto
      have "discard_log_refs (Ref st pg ad # rs) = (discard_log p @ evs) @ rest"
        using False pg a(3) by simp
      moreover have "rec_discard_refs env s (Ref st pg ad # rs)
          = Return ret (s\<lparr>trace := trace s @ (discard_log p @ evs)\<rparr>)"
        using False pg d a(4) by simp
      ultimately show ?thesis using a(1,2) by blast
    next
      case bad: False
      from "3.IH"(1) [OF False pg pr(1) bad] obtain ret evs rest where
        a: "ret \<noteq> 0" "rest \<noteq> []" "discard_log p = evs @ rest"
           "rec_discard env s p = Return ret (s\<lparr>trace := trace s @ evs\<rparr>)"
        by blast
      have "discard_log_refs (Ref st pg ad # rs) = evs @ (rest @ discard_log_refs rs)"
        using False pg a(3) by simp
      moreover have "rec_discard_refs env s (Ref st pg ad # rs)
          = Return ret (s\<lparr>trace := trace s @ evs\<rparr>)"
        using False pg a(1,4) by simp
      ultimately show ?thesis using a(1,2) by blast
    qed
  qed
qed

text \<open>The commit of a dirty page that is not the root, and the label \<^verbatim>\<open>err\<close>.\<close>

lemma evict_dirty_nonroot:
  assumes sm: "F_ISSET p WT_PAGE_REC_SPLIT_MERGE = 0"
    and rev: "rec_review fuel s r p flags = Return 0 (s1, r1, p1)"
    and dirty: "wt_page_is_modified p"
    and wr: "wt_rec_write env p1 = (0, f, md)"
    and f: "f AND WT_PAGE_REC_MASK \<noteq> 0"
    and nr: "\<not> WT_PAGE_IS_ROOT p"
  shows "\<exists>sw. trace sw = trace s @ [EV_rec_write (p_addr p)]
     \<and> wt_rec_evict fuel env s r p flags =
        (case rec_page_dirty_update env sw r1 (reconciled p1 f md) flags of
           Fault \<Rightarrow> Fault
         | Spin \<Rightarrow> Spin
         | Return ret (sd, rd, pd) \<Rightarrow>
             if ret \<noteq> 0 then evict_err flags ret sd rd pd else Return 0 (sd, rd, pd))"
proof -
  note fl = rec_review_fields [OF rev]
  note tr = rec_review_trace [OF rev]
  have d1: "wt_page_is_modified p1" using dirty fl by (simp add: wt_page_is_modified_def)
  let ?p2 = "reconciled p1 f md"
  have m0: "F_ISSET ?p2 WT_PAGE_REC_MASK \<noteq> 0" using f by (simp add: F_ISSET_reconciled)
  have nr2: "\<not> WT_PAGE_IS_ROOT ?p2" using nr fl by (simp add: WT_PAGE_IS_ROOT_def reconciled_def)
  let ?s2 = "log_event (EV_rec_write (p_addr p1)) s1"
  let ?s3 = "if LF_ISSET flags WT_REC_SINGLE = 0 \<and> is_internal (p_type ?p2)
             then ?s2\<lparr>cache_evict_internal := cache_evict_internal ?s2 + 1\<rparr> else ?s2"
  let ?sw = "?s3\<lparr>cache_evict_modified := cache_evict_modified ?s3 + 1\<rparr>"
  have "trace ?sw = trace s @ [EV_rec_write (p_addr p)]"
    using fl tr by (simp add: log_event_def)
  moreover have "wt_rec_evict fuel env s r p flags =
        (case rec_page_dirty_update env ?sw r1 ?p2 flags of
           Fault \<Rightarrow> Fault
         | Spin \<Rightarrow> Spin
         | Return ret (sd, rd, pd) \<Rightarrow>
             if ret \<noteq> 0 then evict_err flags ret sd rd pd else Return 0 (sd, rd, pd))"
    using sm rev d1 wr m0 nr2
    by (simp add: wt_rec_evict_def rec_write_def Let_def)
  ultimately show ?thesis by blast
qed

lemma dirty_update_replace:
  assumes "F_ISSET p WT_PAGE_REC_MASK = WT_PAGE_REC_REPLACE" "p_modify p = Some md"
    and "wt_calloc env = 0"
  shows "rec_page_dirty_update env s r p flags =
     (case rec_discard env
        (s\<lparr>trace := trace s
              @ (if addr r \<noteq> ADDR_NULL \<and> wt_off_page (addr r) then [EV_free (addr r)] else [])
              @ [EV_calloc,
                 EV_publish WT_REF_DISK 0
                   (ADDR_OFF_PAGE (WT_ADDR (a_addr (m_replace md)) (a_size (m_replace md))))]\<rparr>) p of
        Fault \<Rightarrow> Fault
      | Spin \<Rightarrow> Spin
      | Return ret sd \<Rightarrow>
          Return ret (sd, r\<lparr>addr := ADDR_OFF_PAGE (WT_ADDR (a_addr (m_replace md)) (a_size (m_replace md))),
                            page := 0, state := WT_REF_DISK\<rparr>, p))"
proof -
  have ne: "WT_PAGE_REC_REPLACE \<noteq> WT_PAGE_REC_EMPTY"
    by (simp add: WT_PAGE_REC_REPLACE_def WT_PAGE_REC_EMPTY_def)
  show ?thesis using assms ne
    by (cases "m_replace md"; cases r)
       (simp add: rec_page_dirty_update_def log_event_def Let_def split: exec.splits)
qed

lemma evict_err_returns:
  assumes "LF_ISSET flags WT_REC_SINGLE \<noteq> 0 \<or> locked_tree p"
  shows "\<exists>p'. evict_err flags ret s r p =
           Return ret (s, if LF_ISSET flags WT_REC_SINGLE = 0 then r\<lparr>state := WT_REF_MEM\<rparr> else r, p')"
proof (cases "LF_ISSET flags WT_REC_SINGLE = 0")
  case True
  then have "locked_tree p" using assms by simp
  from rec_excl_clear_locked [OF this, of r] True show ?thesis
    by (auto simp: evict_err_def)
next
  case False
  then show ?thesis by (simp add: evict_err_def)
qed

text \<open>
  C3, as stated, fails when a wrap-up of the discard fails.  The writer reports a
  replacement of the dirty page at address 100, and \<^verbatim>\<open>__wt_rec_track_wrapup\<close> returns
  5 on that page.  The old address is freed, the new one installed and \<open>DISK\<close>
  published, the child at address 200 is discarded, and the discard stops at the
  wrap-up of the page itself: the page is not passed to \<^verbatim>\<open>__wt_page_out\<close>,
  \<^verbatim>\<open>__wt_rec_evict\<close> returns 5, and the slot is left in state \<open>MEM\<close> with
  \<^verbatim>\<open>page = NULL\<close>.
\<close>

theorem evict_replace_wrapup_counterexample:
  "wt_rec_evict (Suc 0) env_replace_wrapfail session0 slot_locked int_dirty 0 =
     Return 5
       (session0\<lparr>cache_evict_internal := 1, cache_evict_modified := 1,
          trace := [EV_rec_write 100, EV_free (ADDR_OFF_PAGE (WT_ADDR 4096 32)), EV_calloc,
                    EV_publish WT_REF_DISK 0 (ADDR_OFF_PAGE (WT_ADDR 10 100)),
                    EV_track_wrapup 200, EV_page_out 200, EV_track_wrapup 100]\<rparr>,
        \<lparr>state = WT_REF_MEM, page = 0, addr = ADDR_OFF_PAGE (WT_ADDR 10 100)\<rparr>,
        Page 100 50 WT_PAGE_ROW_INT WT_PAGE_REC_REPLACE 0 (Some (Modify False (WT_ADDR 10 100) None))
          [Ref WT_REF_MEM (Some leaf_clean_split) ADDR_NULL,
           Ref WT_REF_DISK None (ADDR_ON_PAGE 64)])"
  by code_simp

text \<open>
  C3, amended.  When the writer reports a one-for-one replacement of the dirty page
  and the allocation of the new \<^verbatim>\<open>WT_ADDR\<close> succeeds, the calls after the one of the
  writer are, in this order: \<^verbatim>\<open>__wt_free\<close> of the old address if and only if it is not
  \<^verbatim>\<open>NULL\<close> and off-page; the allocation of the new \<^verbatim>\<open>WT_ADDR\<close>; the publication of
  state \<open>DISK\<close>, at which point the slot already has \<^verbatim>\<open>page = NULL\<close> and the new
  address with the \<^verbatim>\<open>addr\<close> and \<^verbatim>\<open>size\<close> of \<^verbatim>\<open>modify.replace\<close>; the calls of the
  discard of the page and of the pages merged into it.  When every wrap-up of the
  discard succeeds, the discard is complete and \<^verbatim>\<open>__wt_rec_evict\<close> returns 0 with the
  slot in state \<open>DISK\<close>.  When a wrap-up fails, the discard stops there: only a proper
  initial part of its calls is made, \<^verbatim>\<open>__wt_rec_evict\<close> returns a non-zero result, and
  the slot keeps \<^verbatim>\<open>page = NULL\<close> and the new address; its state is \<open>MEM\<close>, unless
  \<^verbatim>\<open>WT_REC_SINGLE\<close> is set, in which case it stays \<open>DISK\<close>.
\<close>

theorem evict_replace:
  assumes sm: "F_ISSET p WT_PAGE_REC_SPLIT_MERGE = 0"
    and rev: "rec_review fuel s r p flags = Return 0 (s1, r1, p1)"
    and dirty: "wt_page_is_modified p"
    and wr: "wt_rec_write env p1 = (0, f, Some md)"
    and f: "f AND WT_PAGE_REC_MASK = WT_PAGE_REC_REPLACE"
    and nr: "\<not> WT_PAGE_IS_ROOT p"
    and alloc: "wt_calloc env = 0"
  shows "(discard_ok env (reconciled p1 f (Some md)) \<longrightarrow>
      (\<exists>s'. wt_rec_evict fuel env s r p flags =
           Return 0 (s', \<lparr>state = WT_REF_DISK, page = 0,
                          addr = ADDR_OFF_PAGE (WT_ADDR (a_addr (m_replace md)) (a_size (m_replace md)))\<rparr>,
                     reconciled p1 f (Some md))
        \<and> trace s' = trace s @ [EV_rec_write (p_addr p)]
           @ (if addr r \<noteq> ADDR_NULL \<and> wt_off_page (addr r) then [EV_free (addr r)] else [])
           @ [EV_calloc,
              EV_publish WT_REF_DISK 0
                (ADDR_OFF_PAGE (WT_ADDR (a_addr (m_replace md)) (a_size (m_replace md))))]
           @ discard_log (reconciled p1 f (Some md))))
    \<and> (\<not> discard_ok env (reconciled p1 f (Some md)) \<and> addrs_ok p \<longrightarrow>
      (\<exists>ret s' p' evs rest. ret \<noteq> 0
        \<and> wt_rec_evict fuel env s r p flags =
            Return ret (s', \<lparr>state = (if LF_ISSET flags WT_REC_SINGLE = 0 then WT_REF_MEM else WT_REF_DISK),
                             page = 0,
                             addr = ADDR_OFF_PAGE (WT_ADDR (a_addr (m_replace md)) (a_size (m_replace md)))\<rparr>,
                        p')
        \<and> rest \<noteq> [] \<and> discard_log (reconciled p1 f (Some md)) = evs @ rest
        \<and> trace s' = trace s @ [EV_rec_write (p_addr p)]
           @ (if addr r \<noteq> ADDR_NULL \<and> wt_off_page (addr r) then [EV_free (addr r)] else [])
           @ [EV_calloc,
              EV_publish WT_REF_DISK 0
                (ADDR_OFF_PAGE (WT_ADDR (a_addr (m_replace md)) (a_size (m_replace md))))]
           @ evs))"
proof (intro conjI impI)
  note fl = rec_review_fields [OF rev]
  let ?p2 = "reconciled p1 f (Some md)"
  let ?new = "ADDR_OFF_PAGE (WT_ADDR (a_addr (m_replace md)) (a_size (m_replace md)))"
  let ?pre = "(if addr r \<noteq> ADDR_NULL \<and> wt_off_page (addr r) then [EV_free (addr r)] else [])
              @ [EV_calloc, EV_publish WT_REF_DISK 0 ?new]"
  have m: "F_ISSET ?p2 WT_PAGE_REC_MASK = WT_PAGE_REC_REPLACE" using f by (simp add: F_ISSET_reconciled)
  have f0: "f AND WT_PAGE_REC_MASK \<noteq> 0" using f by (simp add: WT_PAGE_REC_REPLACE_def)
  have md: "p_modify ?p2 = Some md" by (simp add: reconciled_def)
  from evict_dirty_nonroot [OF sm rev dirty wr f0 nr] obtain sw where
    sw: "trace sw = trace s @ [EV_rec_write (p_addr p)]"
    and ev: "wt_rec_evict fuel env s r p flags =
        (case rec_page_dirty_update env sw r1 ?p2 flags of
           Fault \<Rightarrow> Fault
         | Spin \<Rightarrow> Spin
         | Return ret (sd, rd, pd) \<Rightarrow>
             if ret \<noteq> 0 then evict_err flags ret sd rd pd else Return 0 (sd, rd, pd))"
    by blast
  have r4: "r1\<lparr>addr := ?new, page := 0, state := WT_REF_DISK\<rparr>
              = \<lparr>state = WT_REF_DISK, page = 0, addr = ?new\<rparr>" by simp
  have pre: "(if addr r1 \<noteq> ADDR_NULL \<and> wt_off_page (addr r1) then [EV_free (addr r1)] else [])
              @ [EV_calloc, EV_publish WT_REF_DISK 0 ?new] = ?pre" using fl by simp
  let ?sm = "sw\<lparr>trace := trace sw @ ?pre\<rparr>"
  have du: "rec_page_dirty_update env sw r1 ?p2 flags =
     (case rec_discard env ?sm ?p2 of
        Fault \<Rightarrow> Fault
      | Spin \<Rightarrow> Spin
      | Return ret sd \<Rightarrow> Return ret (sd, \<lparr>state = WT_REF_DISK, page = 0, addr = ?new\<rparr>, ?p2))"
    using dirty_update_replace [OF m md alloc, of sw r1 flags] by (simp only: r4 pre)
  {
    assume dok: "discard_ok env ?p2"
    have "wt_rec_evict fuel env s r p flags =
        Return 0 (?sm\<lparr>trace := trace ?sm @ discard_log ?p2\<rparr>,
                  \<lparr>state = WT_REF_DISK, page = 0, addr = ?new\<rparr>, ?p2)"
      by (simp add: ev du rec_discard_log(1) [OF dok])
    moreover have "trace (?sm\<lparr>trace := trace ?sm @ discard_log ?p2\<rparr>)
        = trace s @ [EV_rec_write (p_addr p)] @ ?pre @ discard_log ?p2"
      using sw by simp
    ultimately show "\<exists>s'. wt_rec_evict fuel env s r p flags =
           Return 0 (s', \<lparr>state = WT_REF_DISK, page = 0, addr = ?new\<rparr>, ?p2)
        \<and> trace s' = trace s @ [EV_rec_write (p_addr p)]
           @ (if addr r \<noteq> ADDR_NULL \<and> wt_off_page (addr r) then [EV_free (addr r)] else [])
           @ [EV_calloc, EV_publish WT_REF_DISK 0 ?new]
           @ discard_log ?p2"
      by (metis append.assoc)
  }
  {
    assume bad0: "\<not> discard_ok env ?p2 \<and> addrs_ok p"
    then have bad: "\<not> discard_ok env ?p2" and ok: "addrs_ok p" by simp_all
    have pr: "present_tree ?p2"
      using rec_review_present [OF rev] by (simp add: present_tree_reconciled)
    from rec_discard_fails(1) [OF pr bad, of ?sm] obtain ret evs rest where
      a: "ret \<noteq> 0" "rest \<noteq> []" "discard_log ?p2 = evs @ rest"
         "rec_discard env ?sm ?p2 = Return ret (?sm\<lparr>trace := trace ?sm @ evs\<rparr>)"
      by blast
    have lk: "LF_ISSET flags WT_REC_SINGLE \<noteq> 0 \<or> locked_tree ?p2"
      using rec_review_locked [OF _ ok rev] by (auto simp: locked_tree_reconciled)
    let ?rr = "\<lparr>state = (if LF_ISSET flags WT_REC_SINGLE = 0 then WT_REF_MEM else WT_REF_DISK),
                 page = 0, addr = ?new\<rparr>"
    from evict_err_returns [OF lk, of ret "?sm\<lparr>trace := trace ?sm @ evs\<rparr>"
        "\<lparr>state = WT_REF_DISK, page = 0, addr = ?new\<rparr>"]
    obtain p' where
      e: "evict_err flags ret (?sm\<lparr>trace := trace ?sm @ evs\<rparr>)
            \<lparr>state = WT_REF_DISK, page = 0, addr = ?new\<rparr> ?p2
          = Return ret (?sm\<lparr>trace := trace ?sm @ evs\<rparr>, ?rr, p')" by (auto split: if_splits)
    have "wt_rec_evict fuel env s r p flags = Return ret (?sm\<lparr>trace := trace ?sm @ evs\<rparr>, ?rr, p')"
      unfolding ev du a(4) using a(1) e by simp
    moreover have "trace (?sm\<lparr>trace := trace ?sm @ evs\<rparr>)
        = trace s @ [EV_rec_write (p_addr p)] @ ?pre @ evs"
      using sw by simp
    ultimately show "\<exists>ret s' p' evs rest. ret \<noteq> 0
        \<and> wt_rec_evict fuel env s r p flags = Return ret (s', ?rr, p')
        \<and> rest \<noteq> [] \<and> discard_log ?p2 = evs @ rest
        \<and> trace s' = trace s @ [EV_rec_write (p_addr p)]
           @ (if addr r \<noteq> ADDR_NULL \<and> wt_off_page (addr r) then [EV_free (addr r)] else [])
           @ [EV_calloc, EV_publish WT_REF_DISK 0 ?new]
           @ evs"
      using a(1,2,3) by (metis append.assoc)
  }
qed

theorem evict_replace_witness:
  "(\<exists>s'. wt_rec_evict (Suc 0) env_replace session0 slot_locked int_dirty 0 =
        Return 0 (s', \<lparr>state = WT_REF_DISK, page = 0, addr = ADDR_OFF_PAGE (WT_ADDR 10 100)\<rparr>,
                  reconciled int_dirty_locked WT_PAGE_REC_REPLACE (Some (Modify False (WT_ADDR 10 100) None)))
      \<and> trace s' = [EV_rec_write 100, EV_free (ADDR_OFF_PAGE (WT_ADDR 4096 32)), EV_calloc,
                     EV_publish WT_REF_DISK 0 (ADDR_OFF_PAGE (WT_ADDR 10 100)),
                     EV_track_wrapup 200, EV_page_out 200, EV_track_wrapup 100, EV_page_out 100])
   \<and> (\<exists>ret s' p' evs rest. ret \<noteq> 0
      \<and> wt_rec_evict (Suc 0) env_replace_wrapfail session0 slot_locked int_dirty 0 =
          Return ret (s', \<lparr>state = WT_REF_MEM, page = 0, addr = ADDR_OFF_PAGE (WT_ADDR 10 100)\<rparr>, p')
      \<and> rest \<noteq> []
      \<and> [EV_track_wrapup 200, EV_page_out 200, EV_track_wrapup 100, EV_page_out 100] = evs @ rest
      \<and> trace s' = [EV_rec_write 100, EV_free (ADDR_OFF_PAGE (WT_ADDR 4096 32)), EV_calloc,
                     EV_publish WT_REF_DISK 0 (ADDR_OFF_PAGE (WT_ADDR 10 100))] @ evs)"
proof -
  let ?md = "Modify False (WT_ADDR 10 100) None"
  let ?p2 = "reconciled int_dirty_locked WT_PAGE_REC_REPLACE (Some ?md)"
  have h: "F_ISSET int_dirty WT_PAGE_REC_SPLIT_MERGE = 0"
    "wt_page_is_modified int_dirty" "\<not> WT_PAGE_IS_ROOT int_dirty"
    "WT_PAGE_REC_REPLACE AND WT_PAGE_REC_MASK = WT_PAGE_REC_REPLACE"
    "addrs_ok int_dirty" "LF_ISSET 0 WT_REC_SINGLE = 0"
    by code_simp+
  have w: "wt_rec_write env_replace int_dirty_locked = (0, WT_PAGE_REC_REPLACE, Some ?md)"
    "wt_calloc env_replace = 0"
    "wt_rec_write env_replace_wrapfail int_dirty_locked = (0, WT_PAGE_REC_REPLACE, Some ?md)"
    "wt_calloc env_replace_wrapfail = 0"
    by (simp_all add: env_replace_wrapfail_def env_replace_def env_ok_def)
  have d: "discard_ok env_replace ?p2" "\<not> discard_ok env_replace_wrapfail ?p2"
    by (simp_all add: reconciled_def int_dirty_locked_def leaf_clean_split_def is_internal_def
          env_replace_wrapfail_def env_replace_def env_ok_def)
  have v: "trace session0 = []" "p_addr int_dirty = 100" "addr slot_locked = ADDR_OFF_PAGE (WT_ADDR 4096 32)"
    "discard_log ?p2 = [EV_track_wrapup 200, EV_page_out 200, EV_track_wrapup 100, EV_page_out 100]"
    by (simp_all add: session0_def slot_locked_def int_dirty_def reconciled_def int_dirty_locked_def leaf_clean_split_def is_internal_def)
  have one: "\<exists>s'. wt_rec_evict (Suc 0) env_replace session0 slot_locked int_dirty 0 =
        Return 0 (s', \<lparr>state = WT_REF_DISK, page = 0, addr = ADDR_OFF_PAGE (WT_ADDR 10 100)\<rparr>, ?p2)
      \<and> trace s' = [EV_rec_write 100, EV_free (ADDR_OFF_PAGE (WT_ADDR 4096 32)), EV_calloc,
                     EV_publish WT_REF_DISK 0 (ADDR_OFF_PAGE (WT_ADDR 10 100)),
                     EV_track_wrapup 200, EV_page_out 200, EV_track_wrapup 100, EV_page_out 100]"
    using evict_replace [OF h(1) review_int_dirty h(2) w(1) h(4) h(3) w(2)] d(1)
    by (simp add: v wt_off_page_def)
  have two: "\<exists>ret s' p' evs rest. ret \<noteq> 0
      \<and> wt_rec_evict (Suc 0) env_replace_wrapfail session0 slot_locked int_dirty 0 =
          Return ret (s', \<lparr>state = WT_REF_MEM, page = 0, addr = ADDR_OFF_PAGE (WT_ADDR 10 100)\<rparr>, p')
      \<and> rest \<noteq> []
      \<and> [EV_track_wrapup 200, EV_page_out 200, EV_track_wrapup 100, EV_page_out 100] = evs @ rest
      \<and> trace s' = [EV_rec_write 100, EV_free (ADDR_OFF_PAGE (WT_ADDR 4096 32)), EV_calloc,
                     EV_publish WT_REF_DISK 0 (ADDR_OFF_PAGE (WT_ADDR 10 100))] @ evs"
    using evict_replace [OF h(1) review_int_dirty h(2) w(3) h(4) h(3) w(4)] d(2) h(5) h(6)
    by (simp add: v wt_off_page_def)
  from one two show ?thesis by blast
qed



subsection \<open>The walk, slot by slot\<close>

lemma merge_flags_zero:
  "(F_ISSET p (WT_PAGE_REC_EMPTY OR WT_PAGE_REC_SPLIT OR WT_PAGE_REC_SPLIT_MERGE) = 0)
     = (F_ISSET p WT_PAGE_REC_EMPTY = 0 \<and> F_ISSET p WT_PAGE_REC_SPLIT = 0
        \<and> F_ISSET p WT_PAGE_REC_SPLIT_MERGE = 0)"
  by (simp add: F_ISSET_or_zero)

lemma split_empty_zero:
  "(F_ISSET p (WT_PAGE_REC_SPLIT OR WT_PAGE_REC_EMPTY) = 0)
     = (F_ISSET p WT_PAGE_REC_SPLIT = 0 \<and> F_ISSET p WT_PAGE_REC_EMPTY = 0)"
  by (simp add: F_ISSET_or_zero)

text \<open>
  The sorted copy holds the pages with a hazard reference, and \<^verbatim>\<open>__rec_excl_page\<close>
  gives the verdict on a child in memory.
\<close>

lemma hazard_pages_copy: "set (cache_hazard (hazard_copy s)) = hazard_pages s"
proof -
  have "set (qsort hazard_qsort_cmp (hazard_compact (conn_hazard s))) = set (hazard_compact (conn_hazard s))"
    using mset_qsort [of hazard_qsort_cmp "hazard_compact (conn_hazard s)"] by (metis set_mset_mset)
  then show ?thesis by (simp add: hazard_copy_fields hazard_pages_def hazard_compact_filter)
qed

lemma rec_excl_page_verdict:
  "\<exists>s'. rec_excl_page (Suc fuel) s WT_REF_MEM (p_addr p) p flags =
     (case spec_child_verdict (hazard_pages s) flags WT_REF_MEM (Some p) of
        V_skip \<Rightarrow> Fault
      | V_fault \<Rightarrow> Fault
      | V_wait \<Rightarrow> Spin
      | V_abort e st \<Rightarrow> Return e (s', st)
      | V_accept st \<Rightarrow> Return 0 (s', st))"
proof (cases "F_ISSET p (WT_PAGE_REC_EMPTY OR WT_PAGE_REC_SPLIT OR WT_PAGE_REC_SPLIT_MERGE) = 0")
  case True
  then have "F_ISSET p WT_PAGE_REC_EMPTY = 0 \<and> F_ISSET p WT_PAGE_REC_SPLIT = 0
                  \<and> F_ISSET p WT_PAGE_REC_SPLIT_MERGE = 0"
    by (simp add: F_ISSET_or_zero)
  then show ?thesis using True by (simp add: rec_excl_page_def spec_child_verdict_def)
next
  case False
  then have nz: "\<not> (F_ISSET p WT_PAGE_REC_EMPTY = 0 \<and> F_ISSET p WT_PAGE_REC_SPLIT = 0
                  \<and> F_ISSET p WT_PAGE_REC_SPLIT_MERGE = 0)"
    by (simp add: F_ISSET_or_zero)
  have se: "F_ISSET p (WT_PAGE_REC_SPLIT OR WT_PAGE_REC_EMPTY) \<noteq> 0
      \<longleftrightarrow> \<not> (F_ISSET p WT_PAGE_REC_SPLIT = 0 \<and> F_ISSET p WT_PAGE_REC_EMPTY = 0)"
    by (simp add: F_ISSET_or_zero)
  show ?thesis
  proof (cases "LF_ISSET flags WT_REC_SINGLE = 0")
    case single: False
    then show ?thesis using False nz se
      by (auto simp: rec_excl_page_def spec_child_verdict_def)
  next
    case True
    show ?thesis
    proof (cases "p_addr p \<in> hazard_pages s")
      case absent: False
      then have "hazard_retry (Suc fuel) s WT_REF_LOCKED (p_addr p) (LF_ISSET flags WT_REC_WAIT \<noteq> 0)
          = Return 0 (hazard_copy s, WT_REF_LOCKED)"
        by (simp only: hazard_retry_absent hazard_pages_copy not_False_eq_True)
      then show ?thesis using False nz se True absent
        by (auto simp: rec_excl_page_def spec_child_verdict_def hazard_exclusive_def)
    next
      case present: True
      show ?thesis
      proof (cases "LF_ISSET flags WT_REC_WAIT \<noteq> 0")
        case wait: True
        have "hazard_retry (Suc fuel) s WT_REF_LOCKED (p_addr p) True = Spin"
          using present by (simp only: hazard_retry_spin hazard_pages_copy)
        then show ?thesis using False nz True present wait
          by (simp add: rec_excl_page_def spec_child_verdict_def hazard_exclusive_def)
      next
        case nowait: False
        have "hazard_retry (Suc fuel) s WT_REF_LOCKED (p_addr p) False =
     Return 1 ((hazard_copy s)\<lparr>rec_hazard := rec_hazard s + 1,
                               cache_evict_hazard := cache_evict_hazard s + 1\<rparr>, WT_REF_MEM)"
          using present by (simp only: hazard_retry_present hazard_pages_copy)
        then show ?thesis using False nz True present nowait
          by (simp add: rec_excl_page_def spec_child_verdict_def hazard_exclusive_def)
      qed
    qed
  qed
qed

lemma spec_child_verdict_mem:
  "spec_child_verdict H flags WT_REF_MEM (Some p) \<noteq> V_skip"
  "spec_child_verdict H flags WT_REF_MEM (Some p) \<noteq> V_fault"
  "spec_child_verdict H flags WT_REF_MEM (Some p) = V_abort e st' \<Longrightarrow> e \<noteq> 0"
  by (auto simp: spec_child_verdict_def split: if_splits)

lemma hazard_pages_cong: "conn_hazard s' = conn_hazard s \<Longrightarrow> hazard_pages s' = hazard_pages s"
  by (simp add: hazard_pages_def)

lemma rec_excl_refines:
  "hazard_pages s = H \<Longrightarrow>
     \<exists>s'. rec_excl (Suc fuel) s p lst flags =
       (case spec_walk H flags p lst of
          Fault \<Rightarrow> Fault
        | Spin \<Rightarrow> Spin
        | Return e (p', l') \<Rightarrow> Return e (s', p', l'))"
  "hazard_pages s = H \<Longrightarrow>
     \<exists>s'. rec_excl_refs (Suc fuel) s rs lst flags =
       (case spec_walk_refs H flags rs lst of
          Fault \<Rightarrow> Fault
        | Spin \<Rightarrow> Spin
        | Return e (rs', l') \<Rightarrow> Return e (s', rs', l'))"
proof (induction H flags p lst and H flags rs lst arbitrary: s and s rule: spec_walk_spec_walk_refs.induct)
  case (1 H flags a par t f g m es lst)
  from "1.IH" [OF "1.prems"] obtain s' where
    "rec_excl_refs (Suc fuel) s es lst flags =
       (case spec_walk_refs H flags es lst of
          Fault \<Rightarrow> Fault
        | Spin \<Rightarrow> Spin
        | Return e (rs', l') \<Rightarrow> Return e (s', rs', l'))" by blast
  then show ?case by (auto split: exec.splits)
next
  case (2 H flags lst)
  show ?case by simp
next
  case (3 H flags st pg ad rs lst)
  show ?case
  proof (cases st)
    case WT_REF_DISK
    then have v: "spec_child_verdict H flags st pg = V_skip" by (simp add: spec_child_verdict_def)
    from "3.IH"(1) [OF v "3.prems"] obtain s' where
      "rec_excl_refs (Suc fuel) s rs lst flags =
         (case spec_walk_refs H flags rs lst of
            Fault \<Rightarrow> Fault
          | Spin \<Rightarrow> Spin
          | Return e (rs', l') \<Rightarrow> Return e (s', rs', l'))" by blast
    then show ?thesis using v WT_REF_DISK by (auto split: exec.splits)
  next
    case WT_REF_LOCKED
    then show ?thesis by (simp add: spec_child_verdict_def)
  next
    case WT_REF_READING
    then show ?thesis by (simp add: spec_child_verdict_def)
  next
    case WT_REF_MEM
    show ?thesis
    proof (cases pg)
      case None
      then show ?thesis using WT_REF_MEM by (simp add: spec_child_verdict_def)
    next
      case (Some p)
      from rec_excl_page_verdict [of fuel s p flags] "3.prems" obtain sa where
        pv: "rec_excl_page (Suc fuel) s WT_REF_MEM (p_addr p) p flags =
          (case spec_child_verdict H flags WT_REF_MEM (Some p) of
             V_skip \<Rightarrow> Fault
           | V_fault \<Rightarrow> Fault
           | V_wait \<Rightarrow> Spin
           | V_abort e st \<Rightarrow> Return e (sa, st)
           | V_accept st \<Rightarrow> Return 0 (sa, st))" by blast
      show ?thesis
      proof (cases "spec_child_verdict H flags WT_REF_MEM (Some p)")
        case V_skip
        then show ?thesis using spec_child_verdict_mem(1) by blast
      next
        case V_fault
        then show ?thesis using spec_child_verdict_mem(2) by blast
      next
        case V_wait
        then show ?thesis using pv WT_REF_MEM Some by simp
      next
        case (V_abort e st')
        then have "e \<noteq> 0" by (rule spec_child_verdict_mem(3))
        then show ?thesis using pv V_abort WT_REF_MEM Some by simp
      next
        case (V_accept st')
        have v: "spec_child_verdict H flags st pg = V_accept st'" using V_accept WT_REF_MEM Some by simp
        have pa: "rec_excl_page (Suc fuel) s WT_REF_MEM (p_addr p) p flags = Return 0 (sa, st')"
          using pv V_accept by simp
        have ha: "hazard_pages sa = H"
          using rec_excl_page_trace [OF pa] "3.prems" hazard_pages_cong by blast
        let ?sub = "if is_internal (p_type p) then spec_walk H flags p (p_addr p) else Return 0 (p, p_addr p)"
        have "\<exists>sb. (if is_internal (p_type p) then rec_excl (Suc fuel) sa p (p_addr p) flags
                     else Return 0 (sa, p, p_addr p)) =
            (case ?sub of Fault \<Rightarrow> Fault | Spin \<Rightarrow> Spin
             | Return e (p', l') \<Rightarrow> Return e (sb, p', l'))"
        proof (cases "is_internal (p_type p)")
          case True
          from "3.IH"(2) [OF v Some True ha] show ?thesis using True by simp
        next
          case False
          then show ?thesis by simp
        qed
        then obtain sb where
          sub: "(if is_internal (p_type p) then rec_excl (Suc fuel) sa p (p_addr p) flags
                     else Return 0 (sa, p, p_addr p)) =
            (case ?sub of Fault \<Rightarrow> Fault | Spin \<Rightarrow> Spin
             | Return e (p', l') \<Rightarrow> Return e (sb, p', l'))" by blast
        show ?thesis
        proof (cases ?sub)
          case Fault
          then show ?thesis using pa sub v WT_REF_MEM Some by simp
        next
          case Spin
          then show ?thesis using pa sub v WT_REF_MEM Some by simp
        next
          case (Return e x)
          obtain pb lb where x: "x = (pb, lb)" by (cases x)
          have sb: "(if is_internal (p_type p) then rec_excl (Suc fuel) sa p (p_addr p) flags
                     else Return 0 (sa, p, p_addr p)) = Return e (sb, pb, lb)"
            using sub Return x by simp
          show ?thesis
          proof (cases "e = 0")
            case False
            then show ?thesis using pa sb Return x v WT_REF_MEM Some by simp
          next
            case True
            have hb: "hazard_pages sb = H"
              using sb ha rec_excl_trace(1) [of "Suc fuel" sa p "p_addr p" flags e sb pb lb]
                hazard_pages_cong [of sb sa]
              by (auto split: if_splits)
            have ne: "\<not> e \<noteq> 0" using True by simp
            from "3.IH"(3) [OF v Some Return x [symmetric] ne hb] obtain sc where
              "rec_excl_refs (Suc fuel) sb rs lb flags =
                 (case spec_walk_refs H flags rs lb of
                    Fault \<Rightarrow> Fault
                  | Spin \<Rightarrow> Spin
                  | Return e (rs', l') \<Rightarrow> Return e (sc, rs', l'))" by blast
            then show ?thesis using pa sb Return x v True WT_REF_MEM Some
              by (auto split: exec.splits)
          qed
        qed
      qed
    qed
  qed
qed

text \<open>
  C2, as stated, fails for a child on which a reader holds a hazard reference.  The
  second slot of the page holds an internal \<^verbatim>\<open>SPLIT_MERGE\<close> page at address 200, and
  the hazard array has a reference to that address.  The walk does not accept the
  child: it ends with 1, the slot stays \<open>MEM\<close>, and the walk does not descend into
  the child.
\<close>

theorem rec_excl_hazard_counterexample:
  "rec_excl (Suc 0) session_hz int_with_merge 100 0 =
     Return 1 (session_hz\<lparr>cache_hazard := [200, 300], hazard_elem := 2,
                           cache_evict_hazard := 1, rec_hazard := 1\<rparr>,
               int_with_merge, 100)
   \<and> p_entries int_with_merge =
       [Ref WT_REF_DISK None (ADDR_ON_PAGE 64), Ref WT_REF_MEM (Some int_merge_child) ADDR_NULL]
   \<and> F_ISSET int_merge_child WT_PAGE_REC_SPLIT_MERGE \<noteq> 0"
  by code_simp

text \<open>
  C2, amended.  With at least one unit of fuel, the walk of \<^verbatim>\<open>__rec_excl\<close> over a page
  is the walk \<open>spec_walk\<close> of the specification, with the verdicts of \<open>spec_child_verdict\<close>: it
  visits the child slots in sibling order; it skips a child on disk; it aborts with
  \<^verbatim>\<open>WT_ERROR\<close> at a child that is \<open>LOCKED\<close> or \<open>READING\<close>; it aborts with 1 at a child
  in memory that has none of \<^verbatim>\<open>EMPTY\<close>, \<^verbatim>\<open>SPLIT\<close>, \<^verbatim>\<open>SPLIT_MERGE\<close>; unless
  \<^verbatim>\<open>WT_REC_SINGLE\<close> is set it then requests exclusive access to the child, and a
  hazard reference on the child aborts the walk with 1, or makes it wait for ever
  when \<^verbatim>\<open>WT_REC_WAIT\<close> is set; it accepts a \<^verbatim>\<open>SPLIT_MERGE\<close> child whether dirty or
  not; it accepts a \<^verbatim>\<open>SPLIT\<close> or \<^verbatim>\<open>EMPTY\<close> child only if it is clean and aborts with 1
  if it is dirty; and it recurses into an accepted child that is an internal page.
  The result, the slots as the walk leaves them and the last accepted page are those
  of \<open>spec_walk\<close>; the walk makes no external call and leaves the hazard array as it is.
\<close>

theorem rec_excl_walk:
  "\<exists>s'. trace s' = trace s \<and> conn_hazard s' = conn_hazard s
     \<and> rec_excl (Suc fuel) s p lst flags =
         (case spec_walk (hazard_pages s) flags p lst of
            Fault \<Rightarrow> Fault
          | Spin \<Rightarrow> Spin
          | Return e (p', l') \<Rightarrow> Return e (s', p', l'))"
proof -
  from rec_excl_refines(1) [OF refl, where s = s and fuel = fuel and p = p and lst = lst and flags = flags]
  obtain sa where
    a: "rec_excl (Suc fuel) s p lst flags =
         (case spec_walk (hazard_pages s) flags p lst of
            Fault \<Rightarrow> Fault
          | Spin \<Rightarrow> Spin
          | Return e (p', l') \<Rightarrow> Return e (sa, p', l'))" by blast
  show ?thesis
  proof (cases "spec_walk (hazard_pages s) flags p lst")
    case Fault
    then show ?thesis using a by auto
  next
    case Spin
    then show ?thesis using a by auto
  next
    case (Return e x)
    obtain pa la where x: "x = (pa, la)" by (cases x)
    have r: "rec_excl (Suc fuel) s p lst flags = Return e (sa, pa, la)" using a Return x by simp
    from rec_excl_trace(1) [OF r] r Return x show ?thesis by auto
  qed
qed

theorem rec_excl_walk_witness:
  "(\<exists>s'. rec_excl (Suc 0) session0 int_family 100 0 =
      Return 1 (s',
        Page 100 50 WT_PAGE_ROW_INT 0 0 None
          [Ref WT_REF_DISK None (ADDR_ON_PAGE 64),
           Ref WT_REF_LOCKED
             (Some (Page 200 100 WT_PAGE_ROW_INT WT_PAGE_REC_SPLIT_MERGE 0
                      (Some (Modify True (WT_ADDR 0 0) None))
                      [Ref WT_REF_LOCKED
                         (Some (Page 210 200 WT_PAGE_ROW_LEAF WT_PAGE_REC_SPLIT 0
                                  (Some (Modify False (WT_ADDR 0 0) None)) []))
                         ADDR_NULL,
                       Ref WT_REF_DISK None (ADDR_ON_PAGE 8)]))
             ADDR_NULL,
           Ref WT_REF_LOCKED
             (Some (Page 300 100 WT_PAGE_ROW_LEAF WT_PAGE_REC_EMPTY 0
                      (Some (Modify False (WT_ADDR 0 0) None)) []))
             ADDR_NULL,
           Ref WT_REF_LOCKED
             (Some (Page 400 100 WT_PAGE_ROW_LEAF WT_PAGE_REC_SPLIT 0
                      (Some (Modify True (WT_ADDR 0 0) None)) []))
             ADDR_NULL,
           Ref WT_REF_READING None ADDR_NULL],
        300))
   \<and> (\<exists>s'. rec_excl (Suc 0) session_hz int_family 100 WT_REC_SINGLE = Return 1 (s', int_family, 300))
   \<and> (\<exists>s'. rec_excl (Suc 0) session_hz int_family 100 0 = Return 1 (s', int_family, 100))
   \<and> rec_excl (Suc 0) session_hz int_family 100 WT_REC_WAIT = Spin
   \<and> (\<exists>s'. rec_excl (Suc 0) session_hz_leaf int_family 100 0 =
      Return 1 (s',
        Page 100 50 WT_PAGE_ROW_INT 0 0 None
          [Ref WT_REF_DISK None (ADDR_ON_PAGE 64),
           Ref WT_REF_LOCKED
             (Some (Page 200 100 WT_PAGE_ROW_INT WT_PAGE_REC_SPLIT_MERGE 0
                      (Some (Modify True (WT_ADDR 0 0) None))
                      [Ref WT_REF_MEM
                         (Some (Page 210 200 WT_PAGE_ROW_LEAF WT_PAGE_REC_SPLIT 0
                                  (Some (Modify False (WT_ADDR 0 0) None)) []))
                         ADDR_NULL,
                       Ref WT_REF_DISK None (ADDR_ON_PAGE 8)]))
             ADDR_NULL,
           Ref WT_REF_MEM
             (Some (Page 300 100 WT_PAGE_ROW_LEAF WT_PAGE_REC_EMPTY 0
                      (Some (Modify False (WT_ADDR 0 0) None)) []))
             ADDR_NULL,
           Ref WT_REF_MEM
             (Some (Page 400 100 WT_PAGE_ROW_LEAF WT_PAGE_REC_SPLIT 0
                      (Some (Modify True (WT_ADDR 0 0) None)) []))
             ADDR_NULL,
           Ref WT_REF_READING None ADDR_NULL],
        200))
   \<and> (\<exists>s'. rec_excl (Suc 0) session0 int_family_ok 100 WT_REC_SINGLE = Return 0 (s', int_family_ok, 300))
   \<and> (\<exists>s'. rec_excl (Suc 0) session0 int_with_reading 100 0 = Return WT_ERROR (s', int_with_reading, 100))
   \<and> (\<exists>s'. rec_excl (Suc 0) session0 int_with_plain 100 0 = Return 1 (s', int_with_plain, 100))"
proof -
  have w1: "spec_walk (hazard_pages session0) 0 int_family 100 =
      Return 1 (
        Page 100 50 WT_PAGE_ROW_INT 0 0 None
          [Ref WT_REF_DISK None (ADDR_ON_PAGE 64),
           Ref WT_REF_LOCKED
             (Some (Page 200 100 WT_PAGE_ROW_INT WT_PAGE_REC_SPLIT_MERGE 0
                      (Some (Modify True (WT_ADDR 0 0) None))
                      [Ref WT_REF_LOCKED
                         (Some (Page 210 200 WT_PAGE_ROW_LEAF WT_PAGE_REC_SPLIT 0
                                  (Some (Modify False (WT_ADDR 0 0) None)) []))
                         ADDR_NULL,
                       Ref WT_REF_DISK None (ADDR_ON_PAGE 8)]))
             ADDR_NULL,
           Ref WT_REF_LOCKED
             (Some (Page 300 100 WT_PAGE_ROW_LEAF WT_PAGE_REC_EMPTY 0
                      (Some (Modify False (WT_ADDR 0 0) None)) []))
             ADDR_NULL,
           Ref WT_REF_LOCKED
             (Some (Page 400 100 WT_PAGE_ROW_LEAF WT_PAGE_REC_SPLIT 0
                      (Some (Modify True (WT_ADDR 0 0) None)) []))
             ADDR_NULL,
           Ref WT_REF_READING None ADDR_NULL],
        300)"
    by code_simp
  have w2: "spec_walk (hazard_pages session_hz) WT_REC_SINGLE int_family 100 = Return 1 (int_family, 300)"
    by code_simp
  have w3: "spec_walk (hazard_pages session_hz) 0 int_family 100 = Return 1 (int_family, 100)"
    by code_simp
  have w4: "spec_walk (hazard_pages session_hz) WT_REC_WAIT int_family 100 = Spin"
    by code_simp
  have w5: "spec_walk (hazard_pages session_hz_leaf) 0 int_family 100 =
      Return 1 (
        Page 100 50 WT_PAGE_ROW_INT 0 0 None
          [Ref WT_REF_DISK None (ADDR_ON_PAGE 64),
           Ref WT_REF_LOCKED
             (Some (Page 200 100 WT_PAGE_ROW_INT WT_PAGE_REC_SPLIT_MERGE 0
                      (Some (Modify True (WT_ADDR 0 0) None))
                      [Ref WT_REF_MEM
                         (Some (Page 210 200 WT_PAGE_ROW_LEAF WT_PAGE_REC_SPLIT 0
                                  (Some (Modify False (WT_ADDR 0 0) None)) []))
                         ADDR_NULL,
                       Ref WT_REF_DISK None (ADDR_ON_PAGE 8)]))
             ADDR_NULL,
           Ref WT_REF_MEM
             (Some (Page 300 100 WT_PAGE_ROW_LEAF WT_PAGE_REC_EMPTY 0
                      (Some (Modify False (WT_ADDR 0 0) None)) []))
             ADDR_NULL,
           Ref WT_REF_MEM
             (Some (Page 400 100 WT_PAGE_ROW_LEAF WT_PAGE_REC_SPLIT 0
                      (Some (Modify True (WT_ADDR 0 0) None)) []))
             ADDR_NULL,
           Ref WT_REF_READING None ADDR_NULL],
        200)"
    by code_simp
  have w6: "spec_walk (hazard_pages session0) WT_REC_SINGLE int_family_ok 100 = Return 0 (int_family_ok, 300)"
    by code_simp
  have w7: "spec_walk (hazard_pages session0) 0 int_with_reading 100 = Return WT_ERROR (int_with_reading, 100)"
    by code_simp
  have w8: "spec_walk (hazard_pages session0) 0 int_with_plain 100 = Return 1 (int_with_plain, 100)"
    by code_simp
  have c1: "\<exists>s'. rec_excl (Suc 0) session0 int_family 100 0 =
      Return 1 (s',
        Page 100 50 WT_PAGE_ROW_INT 0 0 None
          [Ref WT_REF_DISK None (ADDR_ON_PAGE 64),
           Ref WT_REF_LOCKED
             (Some (Page 200 100 WT_PAGE_ROW_INT WT_PAGE_REC_SPLIT_MERGE 0
                      (Some (Modify True (WT_ADDR 0 0) None))
                      [Ref WT_REF_LOCKED
                         (Some (Page 210 200 WT_PAGE_ROW_LEAF WT_PAGE_REC_SPLIT 0
                                  (Some (Modify False (WT_ADDR 0 0) None)) []))
                         ADDR_NULL,
                       Ref WT_REF_DISK None (ADDR_ON_PAGE 8)]))
             ADDR_NULL,
           Ref WT_REF_LOCKED
             (Some (Page 300 100 WT_PAGE_ROW_LEAF WT_PAGE_REC_EMPTY 0
                      (Some (Modify False (WT_ADDR 0 0) None)) []))
             ADDR_NULL,
           Ref WT_REF_LOCKED
             (Some (Page 400 100 WT_PAGE_ROW_LEAF WT_PAGE_REC_SPLIT 0
                      (Some (Modify True (WT_ADDR 0 0) None)) []))
             ADDR_NULL,
           Ref WT_REF_READING None ADDR_NULL],
        300)"
    using rec_excl_walk [where s = session0 and fuel = 0 and p = int_family and lst = 100 and flags = 0]
    unfolding w1 by auto
  have c2: "\<exists>s'. rec_excl (Suc 0) session_hz int_family 100 WT_REC_SINGLE = Return 1 (s', int_family, 300)"
    using rec_excl_walk [where s = session_hz and fuel = 0 and p = int_family and lst = 100
        and flags = WT_REC_SINGLE]
    unfolding w2 by auto
  have c3: "\<exists>s'. rec_excl (Suc 0) session_hz int_family 100 0 = Return 1 (s', int_family, 100)"
    using rec_excl_walk [where s = session_hz and fuel = 0 and p = int_family and lst = 100 and flags = 0]
    unfolding w3 by auto
  have c4: "rec_excl (Suc 0) session_hz int_family 100 WT_REC_WAIT = Spin"
    using rec_excl_walk [where s = session_hz and fuel = 0 and p = int_family and lst = 100
        and flags = WT_REC_WAIT]
    unfolding w4 by auto
  have c5: "\<exists>s'. rec_excl (Suc 0) session_hz_leaf int_family 100 0 =
      Return 1 (s',
        Page 100 50 WT_PAGE_ROW_INT 0 0 None
          [Ref WT_REF_DISK None (ADDR_ON_PAGE 64),
           Ref WT_REF_LOCKED
             (Some (Page 200 100 WT_PAGE_ROW_INT WT_PAGE_REC_SPLIT_MERGE 0
                      (Some (Modify True (WT_ADDR 0 0) None))
                      [Ref WT_REF_MEM
                         (Some (Page 210 200 WT_PAGE_ROW_LEAF WT_PAGE_REC_SPLIT 0
                                  (Some (Modify False (WT_ADDR 0 0) None)) []))
                         ADDR_NULL,
                       Ref WT_REF_DISK None (ADDR_ON_PAGE 8)]))
             ADDR_NULL,
           Ref WT_REF_MEM
             (Some (Page 300 100 WT_PAGE_ROW_LEAF WT_PAGE_REC_EMPTY 0
                      (Some (Modify False (WT_ADDR 0 0) None)) []))
             ADDR_NULL,
           Ref WT_REF_MEM
             (Some (Page 400 100 WT_PAGE_ROW_LEAF WT_PAGE_REC_SPLIT 0
                      (Some (Modify True (WT_ADDR 0 0) None)) []))
             ADDR_NULL,
           Ref WT_REF_READING None ADDR_NULL],
        200)"
    using rec_excl_walk [where s = session_hz_leaf and fuel = 0 and p = int_family and lst = 100
        and flags = 0]
    unfolding w5 by auto
  have c6: "\<exists>s'. rec_excl (Suc 0) session0 int_family_ok 100 WT_REC_SINGLE = Return 0 (s', int_family_ok, 300)"
    using rec_excl_walk [where s = session0 and fuel = 0 and p = int_family_ok and lst = 100
        and flags = WT_REC_SINGLE]
    unfolding w6 by auto
  have c7: "\<exists>s'. rec_excl (Suc 0) session0 int_with_reading 100 0 = Return WT_ERROR (s', int_with_reading, 100)"
    using rec_excl_walk [where s = session0 and fuel = 0 and p = int_with_reading and lst = 100 and flags = 0]
    unfolding w7 by auto
  have c8: "\<exists>s'. rec_excl (Suc 0) session0 int_with_plain 100 0 = Return 1 (s', int_with_plain, 100)"
    using rec_excl_walk [where s = session0 and fuel = 0 and p = int_with_plain and lst = 100 and flags = 0]
    unfolding w8 by auto
  from c1 c2 c3 c4 c5 c6 c7 c8 show ?thesis by blast
qed

subsection \<open>The results of a failed eviction\<close>

lemma rec_excl_refs_skip:
  "\<forall>x \<in> set pre. r_state x = WT_REF_DISK \<Longrightarrow>
   rec_excl_refs fuel s (pre @ rs) lst flags =
     (case rec_excl_refs fuel s rs lst flags of
        Fault \<Rightarrow> Fault
      | Spin \<Rightarrow> Spin
      | Return ret (s1, rs1, l1) \<Rightarrow> Return ret (s1, pre @ rs1, l1))"
proof (induction pre)
  case Nil
  then show ?case by (simp split: exec.splits)
next
  case (Cons x pre)
  obtain st pg ad where x: "x = Ref st pg ad" by (cases x)
  then have "st = WT_REF_DISK" using Cons.prems by simp
  then show ?case using Cons x by (simp split: exec.splits)
qed

text \<open>The review when the walk stops at the first slot that is not on disk, with result \<open>code\<close>.\<close>

lemma rec_review_stop:
  assumes int: "is_internal (p_type p)"
    and ent: "p_entries p = pre @ c # rs" "\<forall>x \<in> set pre. r_state x = WT_REF_DISK"
    and lock: "(if LF_ISSET flags WT_REC_SINGLE = 0
         then hazard_exclusive fuel s (state r) (page r) (LF_ISSET flags WT_REC_WAIT \<noteq> 0)
         else Return 0 (s, state r)) = Return 0 (s1, st1)"
    and stop: "rec_excl_refs fuel s1 (c # rs)
                 (if LF_ISSET flags WT_REC_SINGLE = 0 then p_addr p else 0) flags
               = Return code (s2, c' # rs, if LF_ISSET flags WT_REC_SINGLE = 0 then p_addr p else 0)"
    and code: "code \<noteq> 0"
  shows "\<exists>x. rec_review fuel s r p flags = Return code x"
proof -
  obtain a par t f g m es where p: "p = Page a par t f g m es" by (cases p)
  let ?l = "if LF_ISSET flags WT_REC_SINGLE = 0 then p_addr p else 0"
  have es: "es = pre @ c # rs" using ent(1) p by simp
  have w: "rec_excl fuel s1 p ?l flags = Return code (s2, Page a par t f g m (pre @ c' # rs), ?l)"
    using rec_excl_refs_skip [OF ent(2), of fuel s1 "c # rs" ?l flags] stop p es
    by simp
  show ?thesis
  proof (cases "LF_ISSET flags WT_REC_SINGLE = 0")
    case True
    have cl: "rec_excl_clear r' (Page a par t f g m (pre @ c' # rs)) a
        = Return 1 (r'\<lparr>state := WT_REF_MEM\<rparr>, Page a par t f g m (pre @ c' # rs))" for r'
      by (simp add: rec_excl_clear_def)
    show ?thesis using True lock w int code p cl
      by (auto simp: rec_review_def)
  next
    case False
    then show ?thesis using lock w int code p
      by (auto simp: rec_review_def)
  qed
qed

lemma evict_review_fails:
  assumes "F_ISSET p WT_PAGE_REC_SPLIT_MERGE = 0"
    and "rec_review fuel s r p flags = Return code x" and "code \<noteq> 0"
  shows "\<exists>y. wt_rec_evict fuel env s r p flags = Return code y"
  using assms by (cases x) (auto simp: wt_rec_evict_def)

lemma hazard_copy_twice:
  "cache_hazard (hazard_copy (hazard_copy s)) = cache_hazard (hazard_copy s)"
  by (simp add: hazard_copy_fields)

text \<open>
  C9, as stated, fails: the results are not distinct.  A hazard reference on a child
  that is being locked and a child that cannot merge both make \<^verbatim>\<open>__wt_rec_evict\<close>
  return 1.
\<close>

theorem evict_results_not_distinct_counterexample:
  "wt_rec_evict (Suc 0) env_ok session_hz slot_mem int_with_merge 0 =
     Return 1 (session_hz\<lparr>cache_hazard := [200, 300], hazard_elem := 2,
                          cache_evict_hazard := 1, rec_hazard := 1\<rparr>, slot_mem, int_with_merge)
   \<and> wt_rec_evict (Suc 0) env_ok session0 slot_mem int_with_plain 0 =
     Return 1 (session0, slot_mem, int_with_plain)"
  by code_simp

text \<open>
  C9, amended.  \<^verbatim>\<open>__wt_rec_evict\<close> on a page without \<^verbatim>\<open>SPLIT_MERGE\<close> returns 1 when a
  hazard reference blocks the lock on the candidate (no \<^verbatim>\<open>WT_REC_WAIT\<close>).  When the
  candidate is locked and the first slot of the candidate that is not on disk is
  \<open>LOCKED\<close> or \<open>READING\<close>, it returns \<^verbatim>\<open>WT_ERROR\<close>; when that slot is in memory it
  returns 1 in each of these cases: the child has none of the three merge flags; a
  hazard reference blocks the lock on the child; the child is a dirty \<^verbatim>\<open>SPLIT\<close> or
  \<^verbatim>\<open>EMPTY\<close> page without \<^verbatim>\<open>SPLIT_MERGE\<close>.
\<close>

theorem evict_failure_results:
  assumes nsm: "F_ISSET p WT_PAGE_REC_SPLIT_MERGE = 0"
  shows "(LF_ISSET flags WT_REC_SINGLE = 0 \<and> LF_ISSET flags WT_REC_WAIT = 0
          \<and> (state r = WT_REF_MEM \<or> state r = WT_REF_LOCKED)
          \<and> page r \<in> set (cache_hazard (hazard_copy s)) \<longrightarrow>
            (\<exists>x. wt_rec_evict (Suc n) env s r p flags = Return 1 x))
    \<and> (is_internal (p_type p) \<and> p_entries p = pre @ Ref st pg ad # rs
        \<and> (\<forall>x \<in> set pre. r_state x = WT_REF_DISK)
        \<and> (LF_ISSET flags WT_REC_SINGLE \<noteq> 0
           \<or> (state r = WT_REF_MEM \<or> state r = WT_REF_LOCKED)
              \<and> page r \<notin> set (cache_hazard (hazard_copy s))) \<longrightarrow>
         (st = WT_REF_LOCKED \<or> st = WT_REF_READING \<longrightarrow>
            (\<exists>x. wt_rec_evict (Suc n) env s r p flags = Return WT_ERROR x))
       \<and> (st = WT_REF_MEM \<and> pg = Some q
            \<and> F_ISSET q WT_PAGE_REC_EMPTY = 0 \<and> F_ISSET q WT_PAGE_REC_SPLIT = 0
            \<and> F_ISSET q WT_PAGE_REC_SPLIT_MERGE = 0 \<longrightarrow>
            (\<exists>x. wt_rec_evict (Suc n) env s r p flags = Return 1 x))
       \<and> (st = WT_REF_MEM \<and> pg = Some q
            \<and> \<not> (F_ISSET q WT_PAGE_REC_EMPTY = 0 \<and> F_ISSET q WT_PAGE_REC_SPLIT = 0
                   \<and> F_ISSET q WT_PAGE_REC_SPLIT_MERGE = 0)
            \<and> LF_ISSET flags WT_REC_SINGLE = 0 \<and> LF_ISSET flags WT_REC_WAIT = 0
            \<and> p_addr q \<in> set (cache_hazard (hazard_copy s)) \<longrightarrow>
            (\<exists>x. wt_rec_evict (Suc n) env s r p flags = Return 1 x))
       \<and> (st = WT_REF_MEM \<and> pg = Some q
            \<and> F_ISSET q WT_PAGE_REC_SPLIT_MERGE = 0
            \<and> (F_ISSET q WT_PAGE_REC_SPLIT \<noteq> 0 \<or> F_ISSET q WT_PAGE_REC_EMPTY \<noteq> 0)
            \<and> wt_page_is_modified q
            \<and> (LF_ISSET flags WT_REC_SINGLE \<noteq> 0
               \<or> p_addr q \<notin> set (cache_hazard (hazard_copy s))) \<longrightarrow>
            (\<exists>x. wt_rec_evict (Suc n) env s r p flags = Return 1 x)))"
proof (intro conjI impI)
  assume a: "LF_ISSET flags WT_REC_SINGLE = 0 \<and> LF_ISSET flags WT_REC_WAIT = 0
          \<and> (state r = WT_REF_MEM \<or> state r = WT_REF_LOCKED)
          \<and> page r \<in> set (cache_hazard (hazard_copy s))"
  then have "hazard_exclusive (Suc n) s (state r) (page r) False =
      Return 1 ((hazard_copy s)\<lparr>rec_hazard := rec_hazard s + 1,
                                cache_evict_hazard := cache_evict_hazard s + 1\<rparr>, WT_REF_MEM)"
    by (auto simp: hazard_exclusive_def hazard_retry_present simp del: hazard_retry.simps)
  then have "\<exists>x. rec_review (Suc n) s r p flags = Return 1 x"
    using a by (simp add: rec_review_def)
  then show "\<exists>x. wt_rec_evict (Suc n) env s r p flags = Return 1 x"
    using evict_review_fails [OF nsm] by fastforce
next
  assume c: "is_internal (p_type p) \<and> p_entries p = pre @ Ref st pg ad # rs
        \<and> (\<forall>x \<in> set pre. r_state x = WT_REF_DISK)
        \<and> (LF_ISSET flags WT_REC_SINGLE \<noteq> 0
           \<or> (state r = WT_REF_MEM \<or> state r = WT_REF_LOCKED)
              \<and> page r \<notin> set (cache_hazard (hazard_copy s)))"
  let ?s1 = "if LF_ISSET flags WT_REC_SINGLE = 0 then hazard_copy s else s"
  let ?st1 = "if LF_ISSET flags WT_REC_SINGLE = 0 then WT_REF_LOCKED else state r"
  let ?l = "if LF_ISSET flags WT_REC_SINGLE = 0 then p_addr p else 0"
  have lock: "(if LF_ISSET flags WT_REC_SINGLE = 0
         then hazard_exclusive (Suc n) s (state r) (page r) (LF_ISSET flags WT_REC_WAIT \<noteq> 0)
         else Return 0 (s, state r)) = Return 0 (?s1, ?st1)"
    using c by (auto simp: hazard_exclusive_def hazard_retry_absent simp del: hazard_retry.simps)
  have snap: "cache_hazard (hazard_copy ?s1) = cache_hazard (hazard_copy s)"
    by (simp add: hazard_copy_twice)
  have fin: "\<exists>x. wt_rec_evict (Suc n) env s r p flags = Return code x"
    if "rec_excl_refs (Suc n) ?s1 (Ref st pg ad # rs) ?l flags = Return code (s2, c' # rs, ?l)"
      and "code \<noteq> 0" for code s2 c'
  proof -
    from rec_review_stop [OF _ _ _ lock that(1) that(2), of pre] c
    obtain x where "rec_review (Suc n) s r p flags = Return code x" by blast
    from evict_review_fails [OF nsm this that(2)] show ?thesis .
  qed
  {
    assume "st = WT_REF_LOCKED \<or> st = WT_REF_READING"
    then have "rec_excl_refs (Suc n) ?s1 (Ref st pg ad # rs) ?l flags
        = Return WT_ERROR (?s1, Ref st pg ad # rs, ?l)" by auto
    from fin [OF this] show "\<exists>x. wt_rec_evict (Suc n) env s r p flags = Return WT_ERROR x"
      by (simp add: WT_ERROR_def)
  }
  {
    assume "st = WT_REF_MEM \<and> pg = Some q
            \<and> F_ISSET q WT_PAGE_REC_EMPTY = 0 \<and> F_ISSET q WT_PAGE_REC_SPLIT = 0
            \<and> F_ISSET q WT_PAGE_REC_SPLIT_MERGE = 0"
    then have "rec_excl_refs (Suc n) ?s1 (Ref st pg ad # rs) ?l flags
        = Return 1 (?s1, Ref WT_REF_MEM (Some q) ad # rs, ?l)"
      by (simp add: rec_excl_page_def merge_flags_zero)
    from fin [OF this] show "\<exists>x. wt_rec_evict (Suc n) env s r p flags = Return 1 x" by simp
  }
  {
    assume b: "st = WT_REF_MEM \<and> pg = Some q
            \<and> \<not> (F_ISSET q WT_PAGE_REC_EMPTY = 0 \<and> F_ISSET q WT_PAGE_REC_SPLIT = 0
                   \<and> F_ISSET q WT_PAGE_REC_SPLIT_MERGE = 0)
            \<and> LF_ISSET flags WT_REC_SINGLE = 0 \<and> LF_ISSET flags WT_REC_WAIT = 0
            \<and> p_addr q \<in> set (cache_hazard (hazard_copy s))"
    then have "p_addr q \<in> set (cache_hazard (hazard_copy ?s1))" using snap by simp
    then have "hazard_exclusive (Suc n) ?s1 WT_REF_MEM (p_addr q) False =
      Return 1 ((hazard_copy ?s1)\<lparr>rec_hazard := rec_hazard ?s1 + 1,
                                cache_evict_hazard := cache_evict_hazard ?s1 + 1\<rparr>, WT_REF_MEM)"
      by (simp add: hazard_exclusive_def hazard_retry_present del: hazard_retry.simps)
    moreover have "F_ISSET q (WT_PAGE_REC_EMPTY OR WT_PAGE_REC_SPLIT OR WT_PAGE_REC_SPLIT_MERGE) \<noteq> 0"
      using b unfolding merge_flags_zero by blast
    ultimately have "rec_excl_page (Suc n) ?s1 WT_REF_MEM (p_addr q) q flags =
      Return 1 ((hazard_copy ?s1)\<lparr>rec_hazard := rec_hazard ?s1 + 1,
                                cache_evict_hazard := cache_evict_hazard ?s1 + 1\<rparr>, WT_REF_MEM)"
      using b by (simp add: rec_excl_page_def del: hazard_retry.simps)
    then have "rec_excl_refs (Suc n) ?s1 (Ref st pg ad # rs) ?l flags
        = Return 1 ((hazard_copy ?s1)\<lparr>rec_hazard := rec_hazard ?s1 + 1,
                                cache_evict_hazard := cache_evict_hazard ?s1 + 1\<rparr>,
                    Ref WT_REF_MEM (Some q) ad # rs, ?l)"
      using b by (simp del: hazard_retry.simps)
    from fin [OF this] show "\<exists>x. wt_rec_evict (Suc n) env s r p flags = Return 1 x" by simp
  }
  {
    assume b: "st = WT_REF_MEM \<and> pg = Some q
            \<and> F_ISSET q WT_PAGE_REC_SPLIT_MERGE = 0
            \<and> (F_ISSET q WT_PAGE_REC_SPLIT \<noteq> 0 \<or> F_ISSET q WT_PAGE_REC_EMPTY \<noteq> 0)
            \<and> wt_page_is_modified q
            \<and> (LF_ISSET flags WT_REC_SINGLE \<noteq> 0
               \<or> p_addr q \<notin> set (cache_hazard (hazard_copy s)))"
    let ?s2 = "if LF_ISSET flags WT_REC_SINGLE = 0 then hazard_copy ?s1 else ?s1"
    let ?st2 = "if LF_ISSET flags WT_REC_SINGLE = 0 then WT_REF_LOCKED else WT_REF_MEM"
    have "(if LF_ISSET flags WT_REC_SINGLE = 0
               then hazard_exclusive (Suc n) ?s1 WT_REF_MEM (p_addr q) (LF_ISSET flags WT_REC_WAIT \<noteq> 0)
               else Return 0 (?s1, WT_REF_MEM)) = Return 0 (?s2, ?st2)"
      using b snap
      by (auto simp: hazard_exclusive_def hazard_retry_absent simp del: hazard_retry.simps)
    then have "rec_excl_page (Suc n) ?s1 WT_REF_MEM (p_addr q) q flags = Return 1 (?s2, ?st2)"
      using b by (auto simp: rec_excl_page_def merge_flags_zero split_empty_zero
                       simp del: hazard_retry.simps)
    then have "rec_excl_refs (Suc n) ?s1 (Ref st pg ad # rs) ?l flags
        = Return 1 (?s2, Ref ?st2 (Some q) ad # rs, ?l)"
      using b by (simp del: hazard_retry.simps)
    from fin [OF this] show "\<exists>x. wt_rec_evict (Suc n) env s r p flags = Return 1 x" by simp
  }
qed

theorem evict_failure_results_witness:
  "(\<exists>x. wt_rec_evict (Suc 0) env_ok session_hz slot_200 leaf_clean_split 0 = Return 1 x)
   \<and> (\<exists>x. wt_rec_evict (Suc 0) env_ok session_hz slot_mem int_with_reading 0 = Return WT_ERROR x)
   \<and> (\<exists>x. wt_rec_evict (Suc 0) env_ok session_hz slot_mem int_with_plain 0 = Return 1 x)
   \<and> (\<exists>x. wt_rec_evict (Suc 0) env_ok session_hz slot_mem int_with_merge 0 = Return 1 x)
   \<and> (\<exists>x. wt_rec_evict (Suc 0) env_ok session0 slot_mem int_with_dirty_split 0 = Return 1 x)"
proof -
  have snap: "cache_hazard (hazard_copy session_hz) = [200, 300]"
    "cache_hazard (hazard_copy session0) = []" by code_simp+
  have f: "LF_ISSET 0 WT_REC_SINGLE = 0" "LF_ISSET 0 WT_REC_WAIT = 0" by code_simp+
  have sl: "state slot_mem = WT_REF_MEM" "page slot_mem = 100"
    "state slot_200 = WT_REF_MEM" "page slot_200 = 200"
    by (simp_all add: slot_mem_def slot_200_def)
  have a: "F_ISSET leaf_clean_split WT_PAGE_REC_SPLIT_MERGE = 0"
    "F_ISSET int_with_reading WT_PAGE_REC_SPLIT_MERGE = 0"
    "F_ISSET int_with_plain WT_PAGE_REC_SPLIT_MERGE = 0"
    "F_ISSET int_with_merge WT_PAGE_REC_SPLIT_MERGE = 0"
    "F_ISSET int_with_dirty_split WT_PAGE_REC_SPLIT_MERGE = 0"
    by code_simp+
  have i: "is_internal (p_type int_with_plain)" "is_internal (p_type int_with_reading)"
    "is_internal (p_type int_with_merge)" "is_internal (p_type int_with_dirty_split)"
    by code_simp+
  have e: "p_entries int_with_plain = [Ref WT_REF_DISK None (ADDR_ON_PAGE 64)] @ Ref WT_REF_MEM (Some leaf_plain) ADDR_NULL # []"
    "p_entries int_with_reading = [Ref WT_REF_DISK None (ADDR_ON_PAGE 64)] @ Ref WT_REF_READING None ADDR_NULL # []"
    "p_entries int_with_merge = [Ref WT_REF_DISK None (ADDR_ON_PAGE 64)] @ Ref WT_REF_MEM (Some int_merge_child) ADDR_NULL # []"
    "p_entries int_with_dirty_split = [] @ Ref WT_REF_MEM (Some leaf_dirty_split) ADDR_NULL # []"
    by (simp_all add: int_with_plain_def int_with_reading_def int_with_merge_def int_with_dirty_split_def)
  have q: "F_ISSET leaf_plain WT_PAGE_REC_EMPTY = 0" "F_ISSET leaf_plain WT_PAGE_REC_SPLIT = 0"
    "F_ISSET leaf_plain WT_PAGE_REC_SPLIT_MERGE = 0"
    "F_ISSET int_merge_child WT_PAGE_REC_SPLIT_MERGE \<noteq> 0" "p_addr int_merge_child = 200"
    "F_ISSET leaf_dirty_split WT_PAGE_REC_SPLIT_MERGE = 0"
    "F_ISSET leaf_dirty_split WT_PAGE_REC_SPLIT \<noteq> 0" "wt_page_is_modified leaf_dirty_split"
    "p_addr leaf_dirty_split = 200"
    by code_simp+
  have c1: "\<exists>x. wt_rec_evict (Suc 0) env_ok session_hz slot_200 leaf_clean_split 0 = Return 1 x"
    using evict_failure_results [where p = leaf_clean_split and flags = 0 and r = slot_200
        and s = session_hz and n = 0 and env = env_ok, OF a(1)]
    by (simp add: snap f sl)
  have c2: "\<exists>x. wt_rec_evict (Suc 0) env_ok session_hz slot_mem int_with_reading 0 = Return WT_ERROR x"
    using evict_failure_results [where p = int_with_reading and flags = 0 and r = slot_mem
        and s = session_hz and n = 0 and env = env_ok
        and pre = "[Ref WT_REF_DISK None (ADDR_ON_PAGE 64)]" and st = WT_REF_READING and pg = None
        and ad = ADDR_NULL and rs = "[]", OF a(2)]
    by (simp add: snap f sl i e)
  have c3: "\<exists>x. wt_rec_evict (Suc 0) env_ok session_hz slot_mem int_with_plain 0 = Return 1 x"
    using evict_failure_results [where p = int_with_plain and flags = 0 and r = slot_mem
        and s = session_hz and n = 0 and env = env_ok
        and pre = "[Ref WT_REF_DISK None (ADDR_ON_PAGE 64)]" and st = WT_REF_MEM
        and pg = "Some leaf_plain" and q = leaf_plain
        and ad = ADDR_NULL and rs = "[]", OF a(3)]
    by (simp add: snap f sl i e q)
  have c4: "\<exists>x. wt_rec_evict (Suc 0) env_ok session_hz slot_mem int_with_merge 0 = Return 1 x"
    using evict_failure_results [where p = int_with_merge and flags = 0 and r = slot_mem
        and s = session_hz and n = 0 and env = env_ok
        and pre = "[Ref WT_REF_DISK None (ADDR_ON_PAGE 64)]" and st = WT_REF_MEM
        and pg = "Some int_merge_child" and q = int_merge_child
        and ad = ADDR_NULL and rs = "[]", OF a(4)]
    by (simp add: snap f sl i e q)
  have c5: "\<exists>x. wt_rec_evict (Suc 0) env_ok session0 slot_mem int_with_dirty_split 0 = Return 1 x"
    using evict_failure_results [where p = int_with_dirty_split and flags = 0 and r = slot_mem
        and s = session0 and n = 0 and env = env_ok
        and pre = "[]" and st = WT_REF_MEM
        and pg = "Some leaf_dirty_split" and q = leaf_dirty_split
        and ad = ADDR_NULL and rs = "[]", OF a(5)]
    by (simp add: snap f sl i e q)
  show ?thesis using c1 c2 c3 c4 c5 by blast
qed

subsection \<open>Eviction of a dirty root\<close>

lemma rec_root_addr_update_ok:
  assumes "a_addr (root_addr s) = 0 \<or> wt_bm_free env (a_addr (root_addr s)) (a_size (root_addr s)) = 0"
  shows "rec_root_addr_update env s a sz =
     Return 0 (s\<lparr>root_update := True, root_addr := WT_ADDR a sz,
                 trace := trace s @ (if a_addr (root_addr s) \<noteq> 0
                    then [EV_bm_free (a_addr (root_addr s)) (a_size (root_addr s)),
                          EV_free_ptr (a_addr (root_addr s))] else [])\<rparr>)"
  using assms by (auto simp: rec_root_addr_update_def log_event_def Let_def)

lemma root_prepare_code: "F_CLR (mark_dirty (with_modify nx)) WT_PAGE_REC_MASK = root_prepare nx"
  by (simp add: root_prepare_def F_CLR_def mark_dirty_def with_modify_def split: option.splits)

lemma root_prepare_modify: "p_modify (root_prepare nx) \<noteq> None"
  by (simp add: root_prepare_def)

lemma root_step_split:
  assumes "F_ISSET p WT_PAGE_REC_MASK = WT_PAGE_REC_SPLIT" "discard_ok env p"
    "split_page p = Some nx" "wt_page_modify_init env nx = 0"
    "fst (wt_rec_write env (root_prepare nx)) = 0"
  shows "rec_root_dirty_update (Suc fuel) env s p =
     rec_root_dirty_update fuel env
       (s\<lparr>trace := trace s @ discard_log p @ [EV_page_modify_init (p_addr nx), EV_rec_write (p_addr nx)]\<rparr>)
       (root_next env nx)"
proof -
  obtain md where md: "p_modify p = Some md" "m_split md = Some nx"
    using assms(3) by (auto simp: split_page_def split: option.splits)
  have ne: "WT_PAGE_REC_SPLIT \<noteq> WT_PAGE_REC_EMPTY" "WT_PAGE_REC_SPLIT \<noteq> WT_PAGE_REC_REPLACE"
    by (simp_all add: WT_PAGE_REC_SPLIT_def WT_PAGE_REC_EMPTY_def WT_PAGE_REC_REPLACE_def)
  obtain f m2 where w: "wt_rec_write env (root_prepare nx) = (0, f, m2)"
    using assms(5) by (cases "wt_rec_write env (root_prepare nx)") auto
  have pm: "page_modify_set (with_modify nx) = Return 0 (mark_dirty (with_modify nx))"
    by (simp add: page_modify_set_def with_modify_def split: option.splits)
  have pa: "p_addr (root_prepare nx) = p_addr nx"
    by (simp add: root_prepare_def)
  show ?thesis
    using assms(1,4) md ne w pm pa
    by (simp add: rec_discard_log(1) [OF assms(2)] page_modify_init_def log_event_def Let_def
        rec_write_def root_prepare_code root_next_def)
qed

lemma root_step_last:
  assumes "F_ISSET p WT_PAGE_REC_MASK = WT_PAGE_REC_EMPTY
         \<or> F_ISSET p WT_PAGE_REC_MASK = WT_PAGE_REC_REPLACE \<and> p_modify p \<noteq> None"
    and "discard_ok env p"
    and "a_addr (root_addr s) = 0 \<or> wt_bm_free env (a_addr (root_addr s)) (a_size (root_addr s)) = 0"
  shows "rec_root_dirty_update (Suc fuel) env s p =
     Return 0 (s\<lparr>root_update := True, root_addr := root_output p, root_page := 0,
                 trace := trace s @ root_log env (root_addr s) 0 p\<rparr>)"
proof -
  have ne: "WT_PAGE_REC_REPLACE \<noteq> WT_PAGE_REC_EMPTY"
    by (simp_all add: WT_PAGE_REC_EMPTY_def WT_PAGE_REC_REPLACE_def)
  from assms(1) show ?thesis
  proof
    assume e: "F_ISSET p WT_PAGE_REC_MASK = WT_PAGE_REC_EMPTY"
    show ?thesis using e
      by (simp add: rec_root_addr_update_ok [OF assms(3)] rec_discard_log(1) [OF assms(2)]
                    root_output_def)
  next
    assume "F_ISSET p WT_PAGE_REC_MASK = WT_PAGE_REC_REPLACE \<and> p_modify p \<noteq> None"
    then obtain md where r: "F_ISSET p WT_PAGE_REC_MASK = WT_PAGE_REC_REPLACE" "p_modify p = Some md"
      by auto
    show ?thesis using r ne
      by (simp add: rec_root_addr_update_ok [OF assms(3)] rec_discard_log(1) [OF assms(2)]
                    root_output_def)
  qed
qed

text \<open>A discard never spins, and it returns 0 only when every wrap-up succeeded.\<close>

lemma rec_discard_page_no_spin: "rec_discard_page env s p \<noteq> Spin"
  by (simp add: rec_discard_page_def Let_def)

lemma rec_discard_no_spin:
  "rec_discard env s p \<noteq> Spin"
  "rec_discard_refs env s rs \<noteq> Spin"
proof (induction env s p and env s rs rule: rec_discard_rec_discard_refs.induct)
  case (1 env s a par t f g m es)
  then show ?case by (auto simp: rec_discard_page_no_spin split: exec.splits)
next
  case (2 env s)
  then show ?case by simp
next
  case (3 env s st pg ad rs)
  then show ?case by (auto split: exec.splits option.splits)
qed

lemma rec_discard_zero:
  "rec_discard env s p = Return 0 s' \<Longrightarrow> discard_ok env p"
  "rec_discard_refs env s rs = Return 0 s' \<Longrightarrow> discard_ok_refs env rs"
proof (induction env s p and env s rs arbitrary: s' and s' rule: rec_discard_rec_discard_refs.induct)
  case (1 env s a par t f g m es)
  have pg: "\<And>sa. rec_discard_page env sa (Page a par t f g m es) = Return 0 s'
      \<Longrightarrow> (if m \<noteq> None then wt_rec_track_wrapup env (Page a par t f g m es) = 0 else True)"
    by (auto simp: rec_discard_page_def Let_def split: if_splits)
  show ?case
  proof (cases "is_internal t")
    case True
    then obtain sa where a: "rec_discard_refs env s es = Return 0 sa"
      "rec_discard_page env sa (Page a par t f g m es) = Return 0 s'"
      using "1.prems" by (auto split: exec.splits if_splits)
    from "1.IH" [OF True a(1)] pg [OF a(2)] True show ?thesis by simp
  next
    case False
    then show ?thesis using "1.prems" pg [of s] by simp
  qed
next
  case (2 env s)
  then show ?case by simp
next
  case (3 env s st pg ad rs)
  show ?case
  proof (cases "st = WT_REF_DISK")
    case True
    then have "rec_discard_refs env s rs = Return 0 s'" using "3.prems" by simp
    from "3.IH"(3) [OF _ this] True show ?thesis by (cases pg) simp_all
  next
    case False
    then obtain p sa where pg: "pg = Some p" and a: "rec_discard env s p = Return 0 sa"
      "rec_discard_refs env sa rs = Return 0 s'"
      using "3.prems" by (auto split: exec.splits option.splits if_splits)
    have ne: "\<not> (0::int) \<noteq> 0" by simp
    from "3.IH"(1) [OF False pg a(1)] "3.IH"(2) [OF False pg a(1) ne a(2)] False pg
    show ?thesis by simp
  qed
qed

lemma rec_root_addr_update_no_spin: "rec_root_addr_update env s a sz \<noteq> Spin"
  by (simp add: rec_root_addr_update_def Let_def)

text \<open>
  The recursion stops at a root after which the chain does not go on, and it goes as
  deep as the chain only.
\<close>

lemma root_stop:
  assumes "root_nth env (Suc 0) p = None"
  shows "rec_root_dirty_update (Suc fuel) env s p \<noteq> Spin"
proof
  assume sp: "rec_root_dirty_update (Suc fuel) env s p = Spin"
  have ne: "WT_PAGE_REC_SPLIT \<noteq> WT_PAGE_REC_EMPTY" "WT_PAGE_REC_SPLIT \<noteq> WT_PAGE_REC_REPLACE"
    by (simp_all add: WT_PAGE_REC_SPLIT_def WT_PAGE_REC_EMPTY_def WT_PAGE_REC_REPLACE_def)
  let ?first = "(if F_ISSET p WT_PAGE_REC_MASK = WT_PAGE_REC_EMPTY then
              (case rec_root_addr_update env s 0 0 of
                 Fault \<Rightarrow> Fault
               | Spin \<Rightarrow> Spin
               | Return ret s1 \<Rightarrow>
                   if ret \<noteq> 0 then Return ret (s1, None)
                   else Return 0 (s1\<lparr>root_page := 0\<rparr>, None))
            else if F_ISSET p WT_PAGE_REC_MASK = WT_PAGE_REC_REPLACE then
              (case p_modify p of
                 None \<Rightarrow> Fault
               | Some md \<Rightarrow>
                   (case rec_root_addr_update env s (a_addr (m_replace md)) (a_size (m_replace md)) of
                      Fault \<Rightarrow> Fault
                    | Spin \<Rightarrow> Spin
                    | Return ret s1 \<Rightarrow>
                        if ret \<noteq> 0 then Return ret (s1, None)
                        else Return 0 (s1\<lparr>root_page := 0\<rparr>, None)))
            else if F_ISSET p WT_PAGE_REC_MASK = WT_PAGE_REC_SPLIT then
              (case p_modify p of
                 None \<Rightarrow> Fault
               | Some md \<Rightarrow> Return 0 (s, m_split md))
            else Return 0 (s, None))"
  have fs: "?first \<noteq> Spin"
    by (auto simp: rec_root_addr_update_no_spin split: exec.splits option.splits)
  show False
  proof (cases ?first)
    case Fault
    then show ?thesis using sp by simp
  next
    case Spin
    then show ?thesis using fs by simp
  next
    case (Return ret x)
    obtain sa nxt where x: "x = (sa, nxt)" by (cases x)
    have r0: "ret = 0" using sp Return x by (auto split: if_splits)
    show ?thesis
    proof (cases "rec_discard env sa p")
      case Fault
      then show ?thesis using sp Return x r0 by simp
    next
      case Spin
      then show ?thesis using rec_discard_no_spin(1) by blast
    next
      case rd: (Return ret2 sb)
      have r2: "ret2 = 0" using sp Return x r0 rd by (auto split: if_splits)
      have dok: "discard_ok env p" using rd r2 rec_discard_zero(1) by blast
      obtain nx where nx: "nxt = Some nx" using sp Return x r0 rd r2 by (cases nxt) auto
      have sm: "F_ISSET p WT_PAGE_REC_MASK = WT_PAGE_REC_SPLIT \<and> split_page p = Some nx"
        using Return x nx
        by (auto simp: split_page_def split: if_splits exec.splits option.splits)
      have cont: "\<not> (wt_page_modify_init env nx = 0 \<and> fst (wt_rec_write env (root_prepare nx)) = 0)"
        using assms sm dok by (auto split: if_splits)
      have pm: "page_modify_set (with_modify nx) = Return 0 (mark_dirty (with_modify nx))"
        by (simp add: page_modify_set_def with_modify_def split: option.splits)
      have "rec_root_dirty_update (Suc fuel) env s p \<noteq> Spin"
      proof (cases "wt_page_modify_init env nx = 0")
        case False
        then show ?thesis using Return x r0 rd r2 nx
          by (simp add: page_modify_init_def Let_def)
      next
        case True
        then have "fst (wt_rec_write env (root_prepare nx)) \<noteq> 0" using cont by simp
        then obtain rw fw mw where w: "wt_rec_write env (root_prepare nx) = (rw, fw, mw)" "rw \<noteq> 0"
          by (cases "wt_rec_write env (root_prepare nx)") auto
        show ?thesis using Return x r0 rd r2 nx True pm w
          by (simp add: page_modify_init_def Let_def rec_write_def root_prepare_code)
      qed
      then show ?thesis using sp by simp
    qed
  qed
qed

lemma root_nth_continue:
  assumes "root_nth env (Suc (Suc n)) p = None" "root_nth env (Suc 0) p \<noteq> None"
  shows "\<exists>nx. F_ISSET p WT_PAGE_REC_MASK = WT_PAGE_REC_SPLIT \<and> discard_ok env p
           \<and> split_page p = Some nx \<and> wt_page_modify_init env nx = 0
           \<and> fst (wt_rec_write env (root_prepare nx)) = 0
           \<and> root_nth env (Suc n) (root_next env nx) = None"
  using assms by (auto split: if_splits option.splits)

lemma root_terminates:
  "root_nth env (Suc n) p = None \<Longrightarrow> rec_root_dirty_update (Suc (n + k)) env s p \<noteq> Spin"
proof (induction n arbitrary: s p)
  case 0
  then show ?case using root_stop [of env p k s] by simp
next
  case (Suc n)
  show ?case
  proof (cases "root_nth env (Suc 0) p = None")
    case True
    then show ?thesis using root_stop [of env p "Suc (n + k)" s] by simp
  next
    case False
    from root_nth_continue [OF Suc.prems False] obtain nx where
      c: "F_ISSET p WT_PAGE_REC_MASK = WT_PAGE_REC_SPLIT" "discard_ok env p"
         "split_page p = Some nx" "wt_page_modify_init env nx = 0"
         "fst (wt_rec_write env (root_prepare nx)) = 0"
         "root_nth env (Suc n) (root_next env nx) = None" by blast
    have "rec_root_dirty_update (Suc (Suc n + k)) env s p =
       rec_root_dirty_update (Suc (n + k)) env
       (s\<lparr>trace := trace s @ discard_log p @ [EV_page_modify_init (p_addr nx), EV_rec_write (p_addr nx)]\<rparr>)
       (root_next env nx)"
      using root_step_split [OF c(1,2,3,4,5), of "Suc (n + k)" s] by simp
    then show ?thesis using Suc.IH [OF c(6)] by simp
  qed
qed

lemma root_last_bm_fails:
  assumes "F_ISSET p WT_PAGE_REC_MASK = WT_PAGE_REC_EMPTY
         \<or> F_ISSET p WT_PAGE_REC_MASK = WT_PAGE_REC_REPLACE \<and> p_modify p \<noteq> None"
    and "a_addr (root_addr s) \<noteq> 0"
    and "wt_bm_free env (a_addr (root_addr s)) (a_size (root_addr s)) \<noteq> 0"
  shows "rec_root_dirty_update (Suc fuel) env s p =
     Return (wt_bm_free env (a_addr (root_addr s)) (a_size (root_addr s)))
       (s\<lparr>trace := trace s @ [EV_bm_free (a_addr (root_addr s)) (a_size (root_addr s))]\<rparr>)"
proof -
  have ne: "WT_PAGE_REC_REPLACE \<noteq> WT_PAGE_REC_EMPTY"
    by (simp_all add: WT_PAGE_REC_EMPTY_def WT_PAGE_REC_REPLACE_def)
  have u: "\<And>a sz. rec_root_addr_update env s a sz =
     Return (wt_bm_free env (a_addr (root_addr s)) (a_size (root_addr s)))
       (s\<lparr>trace := trace s @ [EV_bm_free (a_addr (root_addr s)) (a_size (root_addr s))]\<rparr>)"
    using assms(2,3) by (simp add: rec_root_addr_update_def log_event_def Let_def)
  from assms(1) show ?thesis
  proof
    assume "F_ISSET p WT_PAGE_REC_MASK = WT_PAGE_REC_EMPTY"
    then show ?thesis using assms(3) by (simp add: u)
  next
    assume "F_ISSET p WT_PAGE_REC_MASK = WT_PAGE_REC_REPLACE \<and> p_modify p \<noteq> None"
    then obtain md where r: "F_ISSET p WT_PAGE_REC_MASK = WT_PAGE_REC_REPLACE" "p_modify p = Some md"
      by auto
    show ?thesis using r ne assms(3) by (simp add: u)
  qed
qed

lemma root_chain_result:
  assumes "root_chain env n p"
    and "a_addr (root_addr s) = 0 \<or> wt_bm_free env (a_addr (root_addr s)) (a_size (root_addr s)) = 0"
  shows "rec_root_dirty_update (Suc (n + k)) env s p =
     Return 0 (s\<lparr>root_update := True, root_addr := root_output (root_last env n p), root_page := 0,
                 trace := trace s @ root_log env (root_addr s) n p\<rparr>)"
  using assms
proof (induction n arbitrary: s p)
  case 0
  then show ?case using root_step_last [of p env s k] by simp
next
  case (Suc n)
  from Suc.prems(1) obtain nx where
    c: "discard_ok env p" "F_ISSET p WT_PAGE_REC_MASK = WT_PAGE_REC_SPLIT" "split_page p = Some nx"
       "wt_page_modify_init env nx = 0" "fst (wt_rec_write env (root_prepare nx)) = 0"
       "root_chain env n (root_next env nx)"
    by (auto split: option.splits)
  let ?s = "s\<lparr>trace := trace s @ discard_log p @ [EV_page_modify_init (p_addr nx), EV_rec_write (p_addr nx)]\<rparr>"
  have b: "a_addr (root_addr ?s) = 0 \<or> wt_bm_free env (a_addr (root_addr ?s)) (a_size (root_addr ?s)) = 0"
    using Suc.prems(2) by simp
  have "rec_root_dirty_update (Suc (Suc n + k)) env s p = rec_root_dirty_update (Suc (n + k)) env ?s (root_next env nx)"
    using root_step_split [OF c(2) c(1) c(3) c(4) c(5), of "Suc (n + k)" s] by simp
  also have "\<dots> = Return 0 (?s\<lparr>root_update := True, root_addr := root_output (root_last env n (root_next env nx)), root_page := 0,
                 trace := trace ?s @ root_log env (root_addr ?s) n (root_next env nx)\<rparr>)"
    by (rule Suc.IH [OF c(6) b])
  finally show ?case using c(3) by simp
qed

lemma root_chain_bm_fails:
  assumes "root_chain env n p"
    and "a_addr (root_addr s) \<noteq> 0"
    and "wt_bm_free env (a_addr (root_addr s)) (a_size (root_addr s)) \<noteq> 0"
  shows "rec_root_dirty_update (Suc (n + k)) env s p =
     Return (wt_bm_free env (a_addr (root_addr s)) (a_size (root_addr s)))
       (s\<lparr>trace := trace s @ root_splits_log env n p
                     @ [EV_bm_free (a_addr (root_addr s)) (a_size (root_addr s))]\<rparr>)"
  using assms
proof (induction n arbitrary: s p)
  case 0
  then show ?case using root_last_bm_fails [of p s env k] by simp
next
  case (Suc n)
  from Suc.prems(1) obtain nx where
    c: "discard_ok env p" "F_ISSET p WT_PAGE_REC_MASK = WT_PAGE_REC_SPLIT" "split_page p = Some nx"
       "wt_page_modify_init env nx = 0" "fst (wt_rec_write env (root_prepare nx)) = 0"
       "root_chain env n (root_next env nx)"
    by (auto split: option.splits)
  let ?s = "s\<lparr>trace := trace s @ discard_log p @ [EV_page_modify_init (p_addr nx), EV_rec_write (p_addr nx)]\<rparr>"
  have b: "a_addr (root_addr ?s) \<noteq> 0"
    "wt_bm_free env (a_addr (root_addr ?s)) (a_size (root_addr ?s)) \<noteq> 0"
    using Suc.prems(2,3) by simp_all
  have "rec_root_dirty_update (Suc (Suc n + k)) env s p = rec_root_dirty_update (Suc (n + k)) env ?s (root_next env nx)"
    using root_step_split [OF c(2) c(1) c(3) c(4) c(5), of "Suc (n + k)" s] by simp
  also have "\<dots> = Return (wt_bm_free env (a_addr (root_addr ?s)) (a_size (root_addr ?s)))
       (?s\<lparr>trace := trace ?s @ root_splits_log env n (root_next env nx)
                     @ [EV_bm_free (a_addr (root_addr ?s)) (a_size (root_addr ?s))]\<rparr>)"
    by (rule Suc.IH [OF c(6) b])
  finally show ?case using c(3) by simp
qed

text \<open>
  C6, as stated, fails when a collaborator fails.  The root at address 100 splits; the
  page the split created, at address 300, is prepared and written, and its outcome is
  a replacement; then \<^verbatim>\<open>__wt_bm_free\<close> fails with 5 on the address the btree had.
  The recursion ends with 5: \<^verbatim>\<open>root_addr\<close> is still the old address, not the output of
  the last reconciliation, \<^verbatim>\<open>root_page\<close> is still 100 although that page has been
  discarded, and the root at address 300 has not been discarded.
\<close>

theorem root_split_bm_free_counterexample:
  "rec_root_dirty_update (Suc (Suc 0)) env_root_bmfail session_root root_split =
     Return 5 (session_root\<lparr>trace :=
       [EV_track_wrapup 100, EV_page_out 100, EV_page_modify_init 300, EV_rec_write 300,
        EV_bm_free 4096 64]\<rparr>)
   \<and> root_page session_root = 100 \<and> root_addr session_root = WT_ADDR 4096 64
   \<and> F_ISSET (root_next env_root_bmfail new_root) WT_PAGE_REC_MASK = WT_PAGE_REC_REPLACE"
  by code_simp

text \<open>
  C6, amended.  (1) When the sequence of reconciliation outcomes met from the root on
  is finite (the chain of roots does not reach an \<open>n+1\<close>-st re-invocation), the
  recursion of \<^verbatim>\<open>__rec_root_dirty_update\<close> ends with any fuel above \<open>n\<close>, whether or not
  a collaborator fails.  (2) When the root's outcome is a split and the discard of the
  root, \<^verbatim>\<open>__wt_page_modify_init\<close> and the writer succeed, the page the split created
  is written as \<open>root_prepare\<close> makes it (marked modified, its reconciliation flags
  cleared, its address and slots unchanged) and the update is invoked again on the
  page the writer reconciled.  (3) When the outcomes are \<open>n\<close> splits followed by a
  replacement or an empty page and no collaborator fails, the recursion returns 0,
  \<^verbatim>\<open>root_addr\<close> is the output of the last reconciliation, \<^verbatim>\<open>root_page\<close> is \<^verbatim>\<open>NULL\<close>, and
  the log shows the discard of every root of the chain.  (4) When \<^verbatim>\<open>__wt_bm_free\<close>
  fails at the last root, the recursion returns its error after the roots before the
  last one have been discarded, and \<^verbatim>\<open>root_addr\<close> and \<^verbatim>\<open>root_page\<close> are unchanged.
\<close>

theorem root_split_converges:
  "(root_nth env (Suc n) p = None \<longrightarrow> rec_root_dirty_update (Suc (n + k)) env s p \<noteq> Spin)
   \<and> (F_ISSET p WT_PAGE_REC_MASK = WT_PAGE_REC_SPLIT \<and> discard_ok env p \<and> split_page p = Some nx
        \<and> wt_page_modify_init env nx = 0 \<and> wt_rec_write env (root_prepare nx) = (0, f, md) \<longrightarrow>
      wt_page_is_modified (root_prepare nx) \<and> F_ISSET (root_prepare nx) WT_PAGE_REC_MASK = 0
      \<and> p_addr (root_prepare nx) = p_addr nx \<and> p_entries (root_prepare nx) = p_entries nx
      \<and> p_flags (root_prepare nx) = p_flags nx AND NOT WT_PAGE_REC_MASK
      \<and> rec_root_dirty_update (Suc fuel) env s p =
          rec_root_dirty_update fuel env
            (s\<lparr>trace := trace s @ discard_log p
                  @ [EV_page_modify_init (p_addr nx), EV_rec_write (p_addr nx)]\<rparr>)
            (reconciled (root_prepare nx) f md))
   \<and> (root_chain env n p
        \<and> (a_addr (root_addr s) = 0 \<or> wt_bm_free env (a_addr (root_addr s)) (a_size (root_addr s)) = 0) \<longrightarrow>
      rec_root_dirty_update (Suc (n + k)) env s p =
        Return 0 (s\<lparr>root_update := True, root_addr := root_output (root_last env n p), root_page := 0,
                    trace := trace s @ root_log env (root_addr s) n p\<rparr>))
   \<and> (root_chain env n p
        \<and> a_addr (root_addr s) \<noteq> 0 \<and> wt_bm_free env (a_addr (root_addr s)) (a_size (root_addr s)) \<noteq> 0 \<longrightarrow>
      rec_root_dirty_update (Suc (n + k)) env s p =
        Return (wt_bm_free env (a_addr (root_addr s)) (a_size (root_addr s)))
          (s\<lparr>trace := trace s @ root_splits_log env n p
                        @ [EV_bm_free (a_addr (root_addr s)) (a_size (root_addr s))]\<rparr>))"
proof (intro conjI impI)
  assume "root_nth env (Suc n) p = None"
  then show "rec_root_dirty_update (Suc (n + k)) env s p \<noteq> Spin" by (rule root_terminates)
next
  assume a: "F_ISSET p WT_PAGE_REC_MASK = WT_PAGE_REC_SPLIT \<and> discard_ok env p \<and> split_page p = Some nx
        \<and> wt_page_modify_init env nx = 0 \<and> wt_rec_write env (root_prepare nx) = (0, f, md)"
  show "wt_page_is_modified (root_prepare nx)"
    by (simp add: root_prepare_def wt_page_is_modified_def split: option.splits)
  show "F_ISSET (root_prepare nx) WT_PAGE_REC_MASK = 0"
    by (simp add: root_prepare_def F_ISSET_def and.assoc)
  show "p_addr (root_prepare nx) = p_addr nx" by (simp add: root_prepare_def)
  show "p_entries (root_prepare nx) = p_entries nx" by (simp add: root_prepare_def)
  show "p_flags (root_prepare nx) = p_flags nx AND NOT WT_PAGE_REC_MASK" by (simp add: root_prepare_def)
  have w: "fst (wt_rec_write env (root_prepare nx)) = 0" using a by simp
  have n: "root_next env nx = reconciled (root_prepare nx) f md" using a by (simp add: root_next_def)
  from a w show "rec_root_dirty_update (Suc fuel) env s p =
          rec_root_dirty_update fuel env
            (s\<lparr>trace := trace s @ discard_log p
                  @ [EV_page_modify_init (p_addr nx), EV_rec_write (p_addr nx)]\<rparr>)
            (reconciled (root_prepare nx) f md)"
    using root_step_split [of p env nx fuel s] by (simp only: n)
next
  assume "root_chain env n p
        \<and> (a_addr (root_addr s) = 0 \<or> wt_bm_free env (a_addr (root_addr s)) (a_size (root_addr s)) = 0)"
  then show "rec_root_dirty_update (Suc (n + k)) env s p =
        Return 0 (s\<lparr>root_update := True, root_addr := root_output (root_last env n p), root_page := 0,
                    trace := trace s @ root_log env (root_addr s) n p\<rparr>)"
    using root_chain_result by blast
next
  assume "root_chain env n p
        \<and> a_addr (root_addr s) \<noteq> 0 \<and> wt_bm_free env (a_addr (root_addr s)) (a_size (root_addr s)) \<noteq> 0"
  then show "rec_root_dirty_update (Suc (n + k)) env s p =
        Return (wt_bm_free env (a_addr (root_addr s)) (a_size (root_addr s)))
          (s\<lparr>trace := trace s @ root_splits_log env n p
                        @ [EV_bm_free (a_addr (root_addr s)) (a_size (root_addr s))]\<rparr>)"
    using root_chain_bm_fails by blast
qed

theorem root_split_converges_witness:
  "rec_root_dirty_update (Suc (Suc 0)) env_root session_root root_split \<noteq> Spin
   \<and> F_ISSET new_root WT_PAGE_REC_MASK = WT_PAGE_REC_SPLIT_MERGE
   \<and> \<not> wt_page_is_modified new_root
   \<and> wt_page_is_modified (root_prepare new_root)
   \<and> F_ISSET (root_prepare new_root) WT_PAGE_REC_MASK = 0
   \<and> rec_root_dirty_update (Suc (Suc 0)) env_root session_root root_split =
        rec_root_dirty_update (Suc 0) env_root
          (session_root\<lparr>trace := [EV_track_wrapup 100, EV_page_out 100,
                                   EV_page_modify_init 300, EV_rec_write 300]\<rparr>)
          (reconciled (root_prepare new_root) WT_PAGE_REC_REPLACE
             (Some (Modify False (WT_ADDR 10 100) None)))
   \<and> rec_root_dirty_update (Suc (Suc 0)) env_root session_root root_split =
        Return 0 (session_root\<lparr>root_update := True, root_addr := WT_ADDR 10 100, root_page := 0,
          trace := [EV_track_wrapup 100, EV_page_out 100, EV_page_modify_init 300, EV_rec_write 300,
                    EV_bm_free 4096 64, EV_free_ptr 4096, EV_track_wrapup 300, EV_page_out 300]\<rparr>)
   \<and> rec_root_dirty_update (Suc (Suc 0)) env_root_bmfail session_root root_split =
        Return 5 (session_root\<lparr>trace :=
          [EV_track_wrapup 100, EV_page_out 100, EV_page_modify_init 300, EV_rec_write 300,
           EV_bm_free 4096 64]\<rparr>)"
proof -
  let ?md = "Some (Modify False (WT_ADDR 10 100) None)"
  have fin: "root_nth env_root (Suc (Suc 0)) root_split = None" by code_simp
  have st: "F_ISSET root_split WT_PAGE_REC_MASK = WT_PAGE_REC_SPLIT \<and> discard_ok env_root root_split
      \<and> split_page root_split = Some new_root
      \<and> wt_page_modify_init env_root new_root = 0
      \<and> wt_rec_write env_root (root_prepare new_root) = (0, WT_PAGE_REC_REPLACE, ?md)"
    by code_simp
  have ch: "root_chain env_root (Suc 0) root_split
      \<and> (a_addr (root_addr session_root) = 0
          \<or> wt_bm_free env_root (a_addr (root_addr session_root)) (a_size (root_addr session_root)) = 0)"
    by code_simp
  have bf: "root_chain env_root_bmfail (Suc 0) root_split
      \<and> a_addr (root_addr session_root) \<noteq> 0
      \<and> wt_bm_free env_root_bmfail (a_addr (root_addr session_root)) (a_size (root_addr session_root)) \<noteq> 0"
    by code_simp
  have nr: "F_ISSET new_root WT_PAGE_REC_MASK = WT_PAGE_REC_SPLIT_MERGE" "\<not> wt_page_is_modified new_root"
    by code_simp+
  have v: "root_output (root_last env_root (Suc 0) root_split) = WT_ADDR 10 100"
    "trace session_root @ root_log env_root (root_addr session_root) (Suc 0) root_split =
       [EV_track_wrapup 100, EV_page_out 100, EV_page_modify_init 300, EV_rec_write 300,
        EV_bm_free 4096 64, EV_free_ptr 4096, EV_track_wrapup 300, EV_page_out 300]"
    "trace session_root @ discard_log root_split
        @ [EV_page_modify_init (p_addr new_root), EV_rec_write (p_addr new_root)] =
       [EV_track_wrapup 100, EV_page_out 100, EV_page_modify_init 300, EV_rec_write 300]"
    "trace session_root @ root_splits_log env_root_bmfail (Suc 0) root_split
        @ [EV_bm_free (a_addr (root_addr session_root)) (a_size (root_addr session_root))] =
       [EV_track_wrapup 100, EV_page_out 100, EV_page_modify_init 300, EV_rec_write 300,
        EV_bm_free 4096 64]"
    "wt_bm_free env_root_bmfail (a_addr (root_addr session_root)) (a_size (root_addr session_root)) = 5"
    by code_simp+
  note a = root_split_converges [where env = env_root and n = "Suc 0" and k = 0 and s = session_root
      and p = root_split and nx = new_root and f = WT_PAGE_REC_REPLACE and md = ?md and fuel = "Suc 0"]
  note b = root_split_converges [where env = env_root_bmfail and n = "Suc 0" and k = 0 and s = session_root
      and p = root_split and nx = new_root and f = WT_PAGE_REC_REPLACE and md = ?md and fuel = "Suc 0"]
  have one: "rec_root_dirty_update (Suc (Suc 0)) env_root session_root root_split \<noteq> Spin"
    using a fin by (simp only: add_0_right add_Suc simp_thms)
  have two: "wt_page_is_modified (root_prepare new_root)
     \<and> F_ISSET (root_prepare new_root) WT_PAGE_REC_MASK = 0
     \<and> rec_root_dirty_update (Suc (Suc 0)) env_root session_root root_split =
        rec_root_dirty_update (Suc 0) env_root
          (session_root\<lparr>trace := [EV_track_wrapup 100, EV_page_out 100,
                                   EV_page_modify_init 300, EV_rec_write 300]\<rparr>)
          (reconciled (root_prepare new_root) WT_PAGE_REC_REPLACE ?md)"
    using a st by (simp only: v simp_thms)
  have three: "rec_root_dirty_update (Suc (Suc 0)) env_root session_root root_split =
        Return 0 (session_root\<lparr>root_update := True, root_addr := WT_ADDR 10 100, root_page := 0,
          trace := [EV_track_wrapup 100, EV_page_out 100, EV_page_modify_init 300, EV_rec_write 300,
                    EV_bm_free 4096 64, EV_free_ptr 4096, EV_track_wrapup 300, EV_page_out 300]\<rparr>)"
    using a ch by (simp only: v add_0_right add_Suc simp_thms)
  have four: "rec_root_dirty_update (Suc (Suc 0)) env_root_bmfail session_root root_split =
        Return 5 (session_root\<lparr>trace :=
          [EV_track_wrapup 100, EV_page_out 100, EV_page_modify_init 300, EV_rec_write 300,
           EV_bm_free 4096 64]\<rparr>)"
    using b bf by (simp only: v add_0_right add_Suc simp_thms)
  from one nr two three four show ?thesis by blast
qed

end
